theory Spec2Isabelle
  imports Main "HOL-Library.AList" "HOL-Library.Product_Lexorder"
begin

section \<open>The feature and descriptor model\<close>

text \<open>
  \<^verbatim>\<open>FlinkTableBuilder\<close> (flink\_table\_builder.py) turns a Feathub table descriptor into
  a native Flink table. The classes it imports (features, transforms, descriptors) are
  value objects compared structurally; they are modelled as datatypes, with HOL equality
  for Python's \<^verbatim>\<open>==\<close>.

  A transform is one of the kinds the builder dispatches on; any other subclass of
  \<^verbatim>\<open>Transformation\<close> reaches the final \<^verbatim>\<open>else\<close> branches and is kept as
  \<open>OtherTransform\<close>. The window transforms carry their shape parameters (the fields
  the window descriptors are built from) and the aggregation they compute.
\<close>

datatype transform =
    ExpressionTransform (expr: string)
  | OverWindowTransform (agg_expr: string) (agg_func: string)
      (partition_keys: "string list") (order_key: string)
  | SlidingWindowTransform (agg_expr: string) (agg_func: string)
      (group_by_keys: "string list") (window_size: nat) (step_size: nat)
  | JoinTransform (table_name: string) (feature_name: string)
  | OtherTransform string

datatype Feature =
  Feature (name: string) (dtype: string) (transform: transform)
    (keys: "string list option") (input_features: "Feature list")

text \<open>
  A table descriptor is a source table (\<^verbatim>\<open>FeatureTable\<close>), a
  \<^verbatim>\<open>DerivedFeatureView\<close>, a \<^verbatim>\<open>SlidingFeatureView\<close>, or any other
  descriptor class (a feature view of another kind, or a plain descriptor); the last two
  reach the \<^verbatim>\<open>else\<close> branch of \<^verbatim>\<open>_get_table\<close>. \<open>props\<close> stands for
  the remaining fields of a source table (its system, schema and properties), which take
  part in the structural comparison. A view that is not resolved yet is marked by the flag
  \<open>unresolved\<close>.
\<close>

datatype TableDescriptor =
    FeatureTable (descriptor_name: string) (timestamp_field: "string option") (props: string)
  | DerivedFeatureView (descriptor_name: string) (source: TableDescriptor)
      (features: "Feature list") (timestamp_field: "string option") (unresolved: bool)
  | SlidingFeatureView (descriptor_name: string) (source: TableDescriptor)
      (features: "Feature list") (timestamp_field: "string option")
      (timestamp_format: string) (unresolved: bool)
  | OtherFeatureView (descriptor_name: string) (timestamp_field: "string option")
      (unresolved: bool)
  | OtherTableDescriptor (descriptor_name: string) (timestamp_field: "string option")

datatype DataFrame = DataFrame (columns: "string list") (data: "string list list")

text \<open>What \<^verbatim>\<open>_get_table\<close> accepts: \<^verbatim>\<open>Union[TableDescriptor, pd.DataFrame]\<close>.\<close>

datatype table_input = Frame DataFrame | Descriptor TableDescriptor

fun is_feature_view :: "TableDescriptor \<Rightarrow> bool" where
  "is_feature_view (FeatureTable n ts p) = False"
| "is_feature_view (DerivedFeatureView n s fs ts u) = True"
| "is_feature_view (SlidingFeatureView n s fs ts fmt u) = True"
| "is_feature_view (OtherFeatureView n ts u) = True"
| "is_feature_view (OtherTableDescriptor n ts) = False"

text \<open>
  The exceptions the builder raises, one constructor per \<^verbatim>\<open>raise\<close> of the source
  (all are \<^verbatim>\<open>FeathubException\<close> but \<open>UnsupportedTransformation\<close>, which is
  \<^verbatim>\<open>FeathubTransformationException\<close>), and the two failures of the code it reads
  from: a dictionary lookup of a missing key, and the resolved features asked of a view
  that is not resolved.
\<close>

datatype error =
    UnresolvedFeatureView
  | MissingTimestampField
  | KeyNotInTableFields string
  | DifferentDescriptorSameName
  | UnsupportedDescriptorType
  | OverWindowWithoutTimestampField
  | JoinWithoutKey
  | SourceLacksJoinKeys
  | JoinWithoutTimestampField
  | SlidingWindowWithoutTimestampField
  | UnsupportedTransformation
  | KeyError string
  | ViewNotResolved

text \<open>
  Modelled from the spec: \<^verbatim>\<open>FeatureView.get_resolved_features\<close> is not among the
  files; the spec calls its result "a feature view's declared (resolved) feature list".
  It is the list of declared features of a resolved view, and a failure otherwise.
\<close>

definition get_resolved_features :: "TableDescriptor \<Rightarrow> error + Feature list" where
  "get_resolved_features feature_view =
     (if unresolved feature_view then Inl ViewNotResolved else Inr (features feature_view))"

section \<open>Native tables\<close>

text \<open>
  The builder does not run anything: each call on a \<^verbatim>\<open>NativeFlinkTable\<close> adds a
  node to a lazy plan. A table is therefore the plan term: a table handed over by the
  engine or by one of the helper modules (\<open>NativeTable\<close>, with its field names), or a
  Table API call on a table. Expressions are the \<^verbatim>\<open>native_flink_expr\<close> terms the
  builder writes.
\<close>

datatype expr =
    Col string
  | Lit string
  | ToTimestamp expr
  | Ge expr expr
  | Lt expr expr
  | CallSql string
  | Cast expr string
  | Alias expr string

datatype table =
    NativeTable (label: string) (table_fields: "string list")
  | Select "expr list" table
  | Filter expr table
  | DropColumns string table
  | AddOrReplaceColumns expr table
  | AddColumns expr table

text \<open>The name of the column an expression produces.\<close>

fun expr_name :: "expr \<Rightarrow> string" where
  "expr_name (Col c) = c"
| "expr_name (Alias e n) = n"
| "expr_name (Cast e ty) = expr_name e"
| "expr_name (Lit s) = s"
| "expr_name (CallSql s) = s"
| "expr_name (ToTimestamp e) = expr_name e"
| "expr_name (Ge a b) = expr_name a"
| "expr_name (Lt a b) = expr_name a"

text \<open>
  \<^verbatim>\<open>table.get_schema().get_field_names()\<close>: a selection has the selected names, a
  filter keeps the schema, \<^verbatim>\<open>drop_columns\<close> removes the column,
  \<^verbatim>\<open>add_or_replace_columns\<close> replaces a column of the same name in place and appends
  it otherwise, \<^verbatim>\<open>add_columns\<close> appends.
\<close>

fun field_names :: "table \<Rightarrow> string list" where
  "field_names (NativeTable l fs) = fs"
| "field_names (Select es t) = map expr_name es"
| "field_names (Filter p t) = field_names t"
| "field_names (DropColumns c t) = removeAll c (field_names t)"
| "field_names (AddOrReplaceColumns e t) =
     (if expr_name e \<in> set (field_names t) then field_names t
      else field_names t @ [expr_name e])"
| "field_names (AddColumns e t) = field_names t @ [expr_name e]"

text \<open>
  The constant of \<^verbatim>\<open>flink_table_builder_constants\<close>; no proof below depends on its
  value.
\<close>

definition EVENT_TIME_ATTRIBUTE_NAME :: string where
  "EVENT_TIME_ATTRIBUTE_NAME = ''__event_time_attribute__''"

section \<open>Descriptors of the helper modules\<close>

text \<open>
  Modelled from the spec: the descriptor classes of \<^verbatim>\<open>over_window_utils\<close>,
  \<^verbatim>\<open>sliding_window_utils\<close>, \<^verbatim>\<open>aggregation_utils\<close> and \<^verbatim>\<open>join_utils\<close>
  are not among the files. A window descriptor is the "value-equality key derived from an
  OverWindow or SlidingWindow transform's shape parameters"; an aggregation field
  descriptor is "derived from a windowed Feature" and carries its field name; a join field
  descriptor records which factory made it.
\<close>

datatype OverWindowDescriptor =
  OverWindowDescriptor (ow_partition_keys: "string list") (ow_order_key: string)

datatype SlidingWindowDescriptor =
  SlidingWindowDescriptor (sw_group_by_keys: "string list") (sw_window_size: nat)
    (sw_step_size: nat)

datatype AggregationFieldDescriptor =
  AggregationFieldDescriptor (field_name: string) (of_feature: Feature)

datatype JoinFieldDescriptor =
    JoinField_from_field_name string
  | JoinField_from_table_descriptor_and_field_name TableDescriptor string

datatype default_value = DefaultValueAndType AggregationFieldDescriptor

definition from_over_window_transform :: "transform \<Rightarrow> OverWindowDescriptor" where
  "from_over_window_transform t = OverWindowDescriptor (partition_keys t) (order_key t)"

definition from_sliding_window_transform :: "transform \<Rightarrow> SlidingWindowDescriptor" where
  "from_sliding_window_transform t =
     SlidingWindowDescriptor (group_by_keys t) (window_size t) (step_size t)"

definition from_feature :: "Feature \<Rightarrow> AggregationFieldDescriptor" where
  "from_feature feature = AggregationFieldDescriptor (name feature) feature"

definition get_default_value_and_type :: "AggregationFieldDescriptor \<Rightarrow> default_value" where
  "get_default_value_and_type agg_descriptor = DefaultValueAndType agg_descriptor"

section \<open>The session: collaborators, cache and the calls made\<close>

text \<open>
  The helper functions the builder calls live in modules that are not among the files
  (\<^verbatim>\<open>source_sink_utils\<close>, \<^verbatim>\<open>join_utils\<close>, \<^verbatim>\<open>over_window_utils\<close>,
  \<^verbatim>\<open>sliding_window_utils\<close>), as does the engine's \<^verbatim>\<open>from_pandas\<close>. Each call
  is a value of \<open>call\<close>; what it returns is given by the environment, so every theorem
  holds whatever these helpers compute. The session state is the cache
  \<^verbatim>\<open>_built_tables\<close> and the sequence of helper calls made so far.
\<close>

datatype call =
    FromPandas DataFrame
  | GetTableFromSource TableDescriptor
  | JoinTableOnKey table table "string list"
  | EvaluateOverWindowTransform table OverWindowDescriptor "AggregationFieldDescriptor list"
  | TemporalJoin table table "string list" "(string \<times> JoinFieldDescriptor) list"
  | EvaluateSlidingWindowTransform table SlidingWindowDescriptor
      "AggregationFieldDescriptor list"
  | FullOuterJoinOnKeyWithDefaultValue table table "string list"
      "(string \<times> default_value) list"

record env =
  registry_get_features :: "string \<Rightarrow> TableDescriptor"
  returns :: "call \<Rightarrow> table"
  view_output_fields :: "TableDescriptor \<Rightarrow> string list \<Rightarrow> string list"
  to_flink_type :: "string \<Rightarrow> string"
  to_java_date_format :: "string \<Rightarrow> string"

record state =
  built_tables :: "string \<rightharpoonup> TableDescriptor \<times> table"
  calls :: "call list"

type_synonym 'a result = "((error + 'a) \<times> state) option"

text \<open>
  A result is \<open>None\<close> when the recursion does not come back within the fuel given
  (nothing bounds the depth of the descriptors the registry hands out), and otherwise the
  value returned or the exception raised, with the state the session is left in.
\<close>

definition bnd :: "'a result \<Rightarrow> ('a \<Rightarrow> state \<Rightarrow> 'b result) \<Rightarrow> 'b result" where
  "bnd m f =
     (case m of
        None \<Rightarrow> None
      | Some (Inl e, st) \<Rightarrow> Some (Inl e, st)
      | Some (Inr x, st) \<Rightarrow> f x st)"

definition invoke :: "env \<Rightarrow> call \<Rightarrow> state \<Rightarrow> table \<times> state" where
  "invoke e c st = (returns e c, st\<lparr>calls := calls st @ [c]\<rparr>)"

section \<open>The builder\<close>

subsection \<open>\<^verbatim>\<open>_get_dependent_features\<close>\<close>

text \<open>The inner loop: the inputs of one feature, each appended unless already there.\<close>

fun add_input_features :: "Feature list \<Rightarrow> Feature list \<Rightarrow> Feature list" where
  "add_input_features [] dependent_features = dependent_features"
| "add_input_features (input_feature # rest) dependent_features =
     add_input_features rest
       (if input_feature \<notin> set dependent_features
        then dependent_features @ [input_feature] else dependent_features)"

text \<open>The outer loop over the resolved features of the view.\<close>

fun add_features :: "Feature list \<Rightarrow> Feature list \<Rightarrow> Feature list" where
  "add_features [] dependent_features = dependent_features"
| "add_features (feature # rest) dependent_features =
     (let with_inputs = add_input_features (input_features feature) dependent_features
      in add_features rest
           (if feature \<notin> set with_inputs then with_inputs @ [feature] else with_inputs))"

definition get_dependent_features :: "TableDescriptor \<Rightarrow> error + Feature list" where
  "get_dependent_features feature_view =
     (case get_resolved_features feature_view of
        Inl err \<Rightarrow> Inl err
      | Inr resolved \<Rightarrow> Inr (add_features resolved []))"

subsection \<open>\<^verbatim>\<open>_evaluate_expression_transform\<close> and \<^verbatim>\<open>_get_output_fields\<close>\<close>

definition evaluate_expression_transform ::
  "env \<Rightarrow> table \<Rightarrow> transform \<Rightarrow> string \<Rightarrow> string \<Rightarrow> table" where
  "evaluate_expression_transform e source_table t result_field_name result_type =
     AddOrReplaceColumns
       (Alias (Cast (CallSql (expr t)) (to_flink_type e result_type)) result_field_name)
       source_table"

definition get_output_fields :: "env \<Rightarrow> TableDescriptor \<Rightarrow> string list \<Rightarrow> string list" where
  "get_output_fields e feature_view source_fields =
     (let output_fields = view_output_fields e feature_view source_fields
      in if EVENT_TIME_ATTRIBUTE_NAME \<notin> set output_fields
         then output_fields @ [EVENT_TIME_ATTRIBUTE_NAME] else output_fields)"

subsection \<open>\<^verbatim>\<open>_range_table_by_time\<close>\<close>

text \<open>
  A \<^verbatim>\<open>datetime\<close> has its fields down to the microsecond; time zones are left out.
  \<open>strftime\<close> is \<^verbatim>\<open>strftime("%Y-%m-%d %H:%M:%S")\<close>: zero-padded decimal fields
  (the year on four digits).
\<close>

record datetime =
  year :: nat
  month :: nat
  day :: nat
  hour :: nat
  minute :: nat
  second :: nat
  microsecond :: nat

definition digit :: "nat \<Rightarrow> char" where
  "digit n = char_of (48 + n mod 10)"

definition pad2 :: "nat \<Rightarrow> string" where
  "pad2 n = [digit (n div 10), digit n]"

definition pad4 :: "nat \<Rightarrow> string" where
  "pad4 n = [digit (n div 1000), digit (n div 100), digit (n div 10), digit n]"

definition strftime :: "datetime \<Rightarrow> string" where
  "strftime d =
     pad4 (year d) @ ''-'' @ pad2 (month d) @ ''-'' @ pad2 (day d) @ '' '' @
     pad2 (hour d) @ '':'' @ pad2 (minute d) @ '':'' @ pad2 (second d)"

definition range_table_by_time ::
  "table \<Rightarrow> datetime option \<Rightarrow> datetime option \<Rightarrow> table" where
  "range_table_by_time table0 start_datetime end_datetime =
     (let table1 =
        (case start_datetime of
           None \<Rightarrow> table0
         | Some s \<Rightarrow>
             Filter (Ge (Col EVENT_TIME_ATTRIBUTE_NAME) (ToTimestamp (Lit (strftime s))))
               table0)
      in case end_datetime of
           None \<Rightarrow> table1
         | Some en \<Rightarrow>
             Filter (Lt (Col EVENT_TIME_ATTRIBUTE_NAME) (ToTimestamp (Lit (strftime en))))
               table1)"

subsection \<open>\<^verbatim>\<open>_filter_table_by_keys\<close>\<close>

text \<open>
  \<open>rec\<close> is \<^verbatim>\<open>self._get_table\<close>, the recursive call. The loop raises at the first
  field of the key table that the table lacks.
\<close>

definition filter_table_by_keys ::
  "(state \<Rightarrow> table_input \<Rightarrow> table result) \<Rightarrow> env \<Rightarrow> state \<Rightarrow> table
     \<Rightarrow> table_input option \<Rightarrow> table result" where
  "filter_table_by_keys rec e st table0 keys0 =
     (case keys0 of
        None \<Rightarrow> Some (Inr table0, st)
      | Some ks \<Rightarrow>
          bnd (rec st ks) (\<lambda>key_table st1.
            case find (\<lambda>field. field \<notin> set (field_names table0)) (field_names key_table) of
              Some field \<Rightarrow> Some (Inl (KeyNotInTableFields field), st1)
            | None \<Rightarrow>
                (case invoke e (JoinTableOnKey key_table table0 (field_names key_table)) st1 of
                   (joined, st2) \<Rightarrow> Some (Inr joined, st2))))"

subsection \<open>\<^verbatim>\<open>_get_table_from_derived_feature_view\<close>\<close>

text \<open>
  The dictionaries the function fills keep their insertion order, which the later loops
  over \<^verbatim>\<open>items()\<close> follow: they are association lists, and \<open>AList.update\<close> is the
  assignment \<^verbatim>\<open>d[k] = v\<close> (in place for a key that is there, at the end otherwise).

  The join tables (lines 211 to 224): one registry lookup and one \<^verbatim>\<open>_get_table\<close> per
  table name. Python iterates a \<^verbatim>\<open>set\<close> in an order of its own; the model takes the
  names in the order \<open>remdups\<close> leaves them.
\<close>

definition join_table_names :: "Feature list \<Rightarrow> string list" where
  "join_table_names resolved =
     remdups (map (\<lambda>feature. table_name (transform feature))
       (filter (\<lambda>feature. case transform feature of JoinTransform tn fn \<Rightarrow> True | _ \<Rightarrow> False)
          resolved))"

fun get_join_tables ::
  "(state \<Rightarrow> table_input \<Rightarrow> table result) \<Rightarrow> env \<Rightarrow> string list
     \<Rightarrow> (string \<times> table) list \<Rightarrow> (string \<times> TableDescriptor) list \<Rightarrow> state
     \<Rightarrow> ((string \<times> table) list \<times> (string \<times> TableDescriptor) list) result" where
  "get_join_tables rec e [] table_by_names descriptors_by_names st =
     Some (Inr (table_by_names, descriptors_by_names), st)"
| "get_join_tables rec e (n # names) table_by_names descriptors_by_names st =
     (let descriptor = registry_get_features e n
      in case rec st (Descriptor descriptor) of
           None \<Rightarrow> None
         | Some (Inl err, st1) \<Rightarrow> Some (Inl err, st1)
         | Some (Inr t, st1) \<Rightarrow>
             get_join_tables rec e names (AList.update n t table_by_names)
               (AList.update n descriptor descriptors_by_names) st1)"

text \<open>
  The state of the dispatch loop (lines 234 to 303): \<^verbatim>\<open>tmp_table\<close>,
  \<^verbatim>\<open>window_agg_map\<close> and \<^verbatim>\<open>right_tables\<close>.
\<close>

type_synonym window_agg_map = "(OverWindowDescriptor \<times> AggregationFieldDescriptor list) list"

type_synonym right_tables =
  "((string \<times> string list) \<times> (string \<times> JoinFieldDescriptor) list) list"

text \<open>
  Lines 277 to 298: the field descriptors of one join feature, merged into the
  dictionary of its batch.
\<close>

definition add_join_fields ::
  "TableDescriptor \<Rightarrow> string \<Rightarrow> string \<Rightarrow> string list
     \<Rightarrow> (string \<times> JoinFieldDescriptor) list \<Rightarrow> (string \<times> JoinFieldDescriptor) list" where
  "add_join_fields right_table_descriptor right_timestamp_field value_field ks descriptors =
     AList.update value_field
       (JoinField_from_table_descriptor_and_field_name right_table_descriptor value_field)
       (AList.update EVENT_TIME_ATTRIBUTE_NAME
          (JoinField_from_field_name EVENT_TIME_ATTRIBUTE_NAME)
          (AList.update right_timestamp_field (JoinField_from_field_name right_timestamp_field)
             (foldl (\<lambda>d key. AList.update key (JoinField_from_field_name key) d)
                descriptors ks)))"

text \<open>One iteration of the dispatch loop.\<close>

definition dispatch_feature ::
  "env \<Rightarrow> TableDescriptor \<Rightarrow> table \<Rightarrow> (string \<times> TableDescriptor) list \<Rightarrow> Feature
     \<Rightarrow> table \<times> window_agg_map \<times> right_tables
     \<Rightarrow> error + table \<times> window_agg_map \<times> right_tables" where
  "dispatch_feature e feature_view source_table descriptors_by_names feature acc =
     (case acc of (tmp_table, window_agg_map, right_tables) \<Rightarrow>
        if name feature \<in> set (field_names tmp_table) then Inr acc
        else
          (case transform feature of
             ExpressionTransform ex \<Rightarrow>
               Inr (evaluate_expression_transform e tmp_table (transform feature)
                      (name feature) (dtype feature),
                    window_agg_map, right_tables)
           | OverWindowTransform ae af pk ok \<Rightarrow>
               if timestamp_field feature_view = None then Inl OverWindowWithoutTimestampField
               else
                 (let descriptor = from_over_window_transform (transform feature);
                      window_aggs =
                        (case map_of window_agg_map descriptor of
                           None \<Rightarrow> [] | Some aggs \<Rightarrow> aggs)
                  in Inr (tmp_table,
                          AList.update descriptor (window_aggs @ [from_feature feature])
                            window_agg_map,
                          right_tables))
           | JoinTransform tn fn \<Rightarrow>
               (case keys feature of
                  None \<Rightarrow> Inl JoinWithoutKey
                | Some ks \<Rightarrow>
                    if \<not> list_all (\<lambda>key. key \<in> set (field_names source_table)) ks
                    then Inl SourceLacksJoinKeys
                    else
                      (case map_of descriptors_by_names tn of
                         None \<Rightarrow> Inl (KeyError tn)
                       | Some right_table_descriptor \<Rightarrow>
                           (case timestamp_field right_table_descriptor of
                              None \<Rightarrow> Inl JoinWithoutTimestampField
                            | Some right_timestamp_field \<Rightarrow>
                                (let descriptors =
                                   (case map_of right_tables (tn, ks) of
                                      None \<Rightarrow> [] | Some d \<Rightarrow> d)
                                 in Inr (tmp_table, window_agg_map,
                                         AList.update (tn, ks)
                                           (add_join_fields right_table_descriptor
                                              right_timestamp_field fn ks descriptors)
                                           right_tables)))))
           | SlidingWindowTransform ae af gk ws ss \<Rightarrow> Inl UnsupportedTransformation
           | OtherTransform kind \<Rightarrow> Inl UnsupportedTransformation))"

fun dispatch_features ::
  "env \<Rightarrow> TableDescriptor \<Rightarrow> table \<Rightarrow> (string \<times> TableDescriptor) list \<Rightarrow> Feature list
     \<Rightarrow> table \<times> window_agg_map \<times> right_tables
     \<Rightarrow> error + table \<times> window_agg_map \<times> right_tables" where
  "dispatch_features e feature_view source_table descriptors_by_names [] acc = Inr acc"
| "dispatch_features e feature_view source_table descriptors_by_names (feature # rest) acc =
     (case dispatch_feature e feature_view source_table descriptors_by_names feature acc of
        Inl err \<Rightarrow> Inl err
      | Inr acc' \<Rightarrow>
          dispatch_features e feature_view source_table descriptors_by_names rest acc')"

text \<open>Lines 305 to 310: one aggregation call per item of \<^verbatim>\<open>window_agg_map\<close>.\<close>

fun evaluate_over_windows :: "env \<Rightarrow> window_agg_map \<Rightarrow> table \<Rightarrow> state \<Rightarrow> table \<times> state" where
  "evaluate_over_windows e [] tmp_table st = (tmp_table, st)"
| "evaluate_over_windows e ((over_window_descriptor, agg_descriptor) # rest) tmp_table st =
     (case invoke e
             (EvaluateOverWindowTransform tmp_table over_window_descriptor agg_descriptor) st of
        (tmp_table', st') \<Rightarrow> evaluate_over_windows e rest tmp_table' st')"

text \<open>
  Lines 312 to 328: one temporal join per item of \<^verbatim>\<open>right_tables\<close>, the right table
  selected down to the fields of the item's dictionary.
\<close>

fun join_right_tables ::
  "env \<Rightarrow> (string \<times> table) list \<Rightarrow> right_tables \<Rightarrow> table \<Rightarrow> state
     \<Rightarrow> (error + table) \<times> state" where
  "join_right_tables e table_by_names [] tmp_table st = (Inr tmp_table, st)"
| "join_right_tables e table_by_names (((right_table_name, ks), descriptors) # rest)
       tmp_table st =
     (case map_of table_by_names right_table_name of
        None \<Rightarrow> (Inl (KeyError right_table_name), st)
      | Some t \<Rightarrow>
          (let right_table = Select (map Col (map fst descriptors)) t
           in case invoke e (TemporalJoin tmp_table right_table ks descriptors) st of
                (tmp_table', st') \<Rightarrow> join_right_tables e table_by_names rest tmp_table' st'))"

text \<open>
  Lines 234 to 333, the part of the function after the tables it needs have been
  fetched: the dispatch loop, the two loops over the batches, and the final selection.
\<close>

definition assemble_derived_table ::
  "env \<Rightarrow> TableDescriptor \<Rightarrow> table \<Rightarrow> (string \<times> table) list
     \<Rightarrow> (string \<times> TableDescriptor) list \<Rightarrow> Feature list \<Rightarrow> state
     \<Rightarrow> (error + table) \<times> state" where
  "assemble_derived_table e feature_view source_table table_by_names descriptors_by_names
       dependent_features st =
     (case dispatch_features e feature_view source_table descriptors_by_names
             dependent_features (source_table, [], []) of
        Inl err \<Rightarrow> (Inl err, st)
      | Inr (tmp_table, window_agg_map, right_tables) \<Rightarrow>
          (case evaluate_over_windows e window_agg_map tmp_table st of
             (tmp_table2, st1) \<Rightarrow>
               (case join_right_tables e table_by_names right_tables tmp_table2 st1 of
                  (Inl err, st2) \<Rightarrow> (Inl err, st2)
                | (Inr tmp_table3, st2) \<Rightarrow>
                    (Inr (Select
                            (map Col (get_output_fields e feature_view
                                        (field_names source_table)))
                            tmp_table3),
                     st2))))"

definition get_table_from_derived_feature_view ::
  "(state \<Rightarrow> table_input \<Rightarrow> table result) \<Rightarrow> env \<Rightarrow> state \<Rightarrow> TableDescriptor
     \<Rightarrow> table result" where
  "get_table_from_derived_feature_view rec e st feature_view =
     bnd (rec st (Descriptor (source feature_view))) (\<lambda>source_table st1.
       case get_dependent_features feature_view of
         Inl err \<Rightarrow> Some (Inl err, st1)
       | Inr dependent_features \<Rightarrow>
           (case get_resolved_features feature_view of
              Inl err \<Rightarrow> Some (Inl err, st1)
            | Inr resolved \<Rightarrow>
                bnd (get_join_tables rec e (join_table_names resolved) [] [] st1)
                  (\<lambda>(table_by_names, descriptors_by_names) st2.
                     Some (assemble_derived_table e feature_view source_table table_by_names
                             descriptors_by_names dependent_features st2))))"

subsection \<open>\<^verbatim>\<open>_get_table_from_sliding_feature_view\<close>\<close>

type_synonym sliding_window_agg_map =
  "(SlidingWindowDescriptor \<times> AggregationFieldDescriptor list) list"

definition dispatch_sliding_feature ::
  "env \<Rightarrow> TableDescriptor \<Rightarrow> Feature \<Rightarrow> table \<times> sliding_window_agg_map
     \<Rightarrow> error + table \<times> sliding_window_agg_map" where
  "dispatch_sliding_feature e feature_view feature acc =
     (case acc of (tmp_table, sliding_window_agg_map) \<Rightarrow>
        if name feature \<in> set (field_names tmp_table) then Inr acc
        else
          (case transform feature of
             ExpressionTransform ex \<Rightarrow>
               Inr (evaluate_expression_transform e tmp_table (transform feature)
                      (name feature) (dtype feature),
                    sliding_window_agg_map)
           | SlidingWindowTransform ae af gk ws ss \<Rightarrow>
               if timestamp_field feature_view = None
               then Inl SlidingWindowWithoutTimestampField
               else
                 (let descriptor = from_sliding_window_transform (transform feature);
                      window_aggs =
                        (case map_of sliding_window_agg_map descriptor of
                           None \<Rightarrow> [] | Some aggs \<Rightarrow> aggs)
                  in Inr (tmp_table,
                          AList.update descriptor (window_aggs @ [from_feature feature])
                            sliding_window_agg_map))
           | OverWindowTransform ae af pk ok \<Rightarrow> Inl UnsupportedTransformation
           | JoinTransform tn fn \<Rightarrow> Inl UnsupportedTransformation
           | OtherTransform kind \<Rightarrow> Inl UnsupportedTransformation))"

fun dispatch_sliding_features ::
  "env \<Rightarrow> TableDescriptor \<Rightarrow> Feature list \<Rightarrow> table \<times> sliding_window_agg_map
     \<Rightarrow> error + table \<times> sliding_window_agg_map" where
  "dispatch_sliding_features e feature_view [] acc = Inr acc"
| "dispatch_sliding_features e feature_view (feature # rest) acc =
     (case dispatch_sliding_feature e feature_view feature acc of
        Inl err \<Rightarrow> Inl err
      | Inr acc' \<Rightarrow> dispatch_sliding_features e feature_view rest acc')"

text \<open>
  Lines 376 to 399: one sliding-window evaluation per item of the map, each joined to
  the tables before it.
\<close>

fun evaluate_sliding_windows ::
  "env \<Rightarrow> table \<Rightarrow> sliding_window_agg_map \<Rightarrow> table option
     \<Rightarrow> (string \<times> default_value) list \<Rightarrow> state \<Rightarrow> table option \<times> state" where
  "evaluate_sliding_windows e tmp_table [] agg_table field_default_value st = (agg_table, st)"
| "evaluate_sliding_windows e tmp_table ((window_descriptor, agg_descriptors) # rest)
       agg_table field_default_value st =
     (let field_default_value' =
            foldl (\<lambda>d agg_descriptor.
                     AList.update (field_name agg_descriptor)
                       (get_default_value_and_type agg_descriptor) d)
              field_default_value agg_descriptors
      in case invoke e
                (EvaluateSlidingWindowTransform tmp_table window_descriptor agg_descriptors)
                st of
           (tmp_agg_table, st1) \<Rightarrow>
             (case agg_table of
                None \<Rightarrow>
                  evaluate_sliding_windows e tmp_table rest (Some tmp_agg_table)
                    field_default_value' st1
              | Some joined \<Rightarrow>
                  (let join_keys =
                         sw_group_by_keys window_descriptor @ [EVENT_TIME_ATTRIBUTE_NAME]
                   in case invoke e
                             (FullOuterJoinOnKeyWithDefaultValue joined tmp_agg_table
                                join_keys field_default_value') st1 of
                        (joined', st2) \<Rightarrow>
                          evaluate_sliding_windows e tmp_table rest (Some joined')
                            field_default_value' st2)))"

text \<open>
  Lines 404 to 425: the timestamp field, computed from the event time. The SQL text is
  written with the backquote \<open>CHR 0x60\<close> and the quote \<open>CHR 0x27\<close>; the latter is
  doubled inside the format, as \<^verbatim>\<open>replace\<close> does.
\<close>

definition add_timestamp_field :: "env \<Rightarrow> TableDescriptor \<Rightarrow> table \<Rightarrow> table" where
  "add_timestamp_field e feature_view tmp_table =
     (case timestamp_field feature_view of
        None \<Rightarrow> tmp_table
      | Some ts \<Rightarrow>
          if timestamp_format feature_view = ''epoch''
          then AddColumns
                 (Alias (CallSql (''UNIX_TIMESTAMP(CAST('' @ [CHR 0x60] @
                                   EVENT_TIME_ATTRIBUTE_NAME @ [CHR 0x60] @ '' AS STRING))''))
                    ts)
                 tmp_table
          else
            (let java_datetime_format =
                   concat (map (\<lambda>c. if c = CHR 0x27 then [c, c] else [c])
                             (to_java_date_format e (timestamp_format feature_view)))
             in AddColumns
                  (Alias (CallSql (''DATE_FORMAT('' @ [CHR 0x60] @ EVENT_TIME_ATTRIBUTE_NAME @
                                    [CHR 0x60] @ '', '' @ [CHR 0x27] @ java_datetime_format @
                                    [CHR 0x27] @ '')''))
                     ts)
                  tmp_table))"

text \<open>Lines 348 to 430, the part of the function after the source table has been fetched.\<close>

definition assemble_sliding_table ::
  "env \<Rightarrow> TableDescriptor \<Rightarrow> table \<Rightarrow> Feature list \<Rightarrow> state \<Rightarrow> (error + table) \<times> state" where
  "assemble_sliding_table e feature_view source_table dependent_features st =
     (case dispatch_sliding_features e feature_view dependent_features (source_table, []) of
        Inl err \<Rightarrow> (Inl err, st)
      | Inr (tmp_table, sliding_window_agg_map) \<Rightarrow>
          (case evaluate_sliding_windows e tmp_table sliding_window_agg_map None [] st of
             (agg_table, st1) \<Rightarrow>
               (let tmp_table2 = (case agg_table of None \<Rightarrow> tmp_table | Some t \<Rightarrow> t);
                    tmp_table3 = add_timestamp_field e feature_view tmp_table2
                in (Inr (Select
                           (map Col (get_output_fields e feature_view
                                       (field_names source_table)))
                           tmp_table3),
                    st1))))"

definition get_table_from_sliding_feature_view ::
  "(state \<Rightarrow> table_input \<Rightarrow> table result) \<Rightarrow> env \<Rightarrow> state \<Rightarrow> TableDescriptor
     \<Rightarrow> table result" where
  "get_table_from_sliding_feature_view rec e st feature_view =
     bnd (rec st (Descriptor (source feature_view))) (\<lambda>source_table st1.
       case get_dependent_features feature_view of
         Inl err \<Rightarrow> Some (Inl err, st1)
       | Inr dependent_features \<Rightarrow>
           Some (assemble_sliding_table e feature_view source_table dependent_features st1))"

subsection \<open>\<^verbatim>\<open>_get_table\<close> and \<^verbatim>\<open>build\<close>\<close>

text \<open>
  \<^verbatim>\<open>_get_table\<close> calls itself through the two view builders; the first argument bounds
  the depth of these calls. The cache is written after the table of a descriptor has been
  built, and the table returned is read back from it.
\<close>

primrec get_table :: "nat \<Rightarrow> env \<Rightarrow> state \<Rightarrow> table_input \<Rightarrow> table result" where
  "get_table 0 e st features0 = None"
| "get_table (Suc fuel) e st features0 =
     (case features0 of
        Frame df \<Rightarrow>
          (case invoke e (FromPandas df) st of (t, st1) \<Rightarrow> Some (Inr t, st1))
      | Descriptor d \<Rightarrow>
          (case built_tables st (descriptor_name d) of
             Some (cached, t) \<Rightarrow>
               if d \<noteq> cached then Some (Inl DifferentDescriptorSameName, st)
               else Some (Inr t, st)
           | None \<Rightarrow>
               (case d of
                  FeatureTable n ts p \<Rightarrow>
                    (case invoke e (GetTableFromSource d) st of
                       (t, st1) \<Rightarrow>
                         Some (Inr t,
                               st1\<lparr>built_tables := (built_tables st1)(descriptor_name d \<mapsto> (d, t))\<rparr>))
                | DerivedFeatureView n src fs ts u \<Rightarrow>
                    bnd (get_table_from_derived_feature_view (get_table fuel e) e st d)
                      (\<lambda>t st1.
                         Some (Inr t,
                               st1\<lparr>built_tables := (built_tables st1)(descriptor_name d \<mapsto> (d, t))\<rparr>))
                | SlidingFeatureView n src fs ts fmt u \<Rightarrow>
                    bnd (get_table_from_sliding_feature_view (get_table fuel e) e st d)
                      (\<lambda>t st1.
                         Some (Inr t,
                               st1\<lparr>built_tables := (built_tables st1)(descriptor_name d \<mapsto> (d, t))\<rparr>))
                | OtherFeatureView n ts u \<Rightarrow> Some (Inl UnsupportedDescriptorType, st)
                | OtherTableDescriptor n ts \<Rightarrow> Some (Inl UnsupportedDescriptorType, st))))"

text \<open>
  \<^verbatim>\<open>build\<close>: the check of an unresolved view, the table, the key filter, the time
  range, and (lines 140 and 141) the event-time column dropped from what is returned.
\<close>

definition drop_event_time :: "table \<Rightarrow> table" where
  "drop_event_time table0 =
     (if EVENT_TIME_ATTRIBUTE_NAME \<in> set (field_names table0)
      then DropColumns EVENT_TIME_ATTRIBUTE_NAME table0 else table0)"

definition build ::
  "nat \<Rightarrow> env \<Rightarrow> state \<Rightarrow> TableDescriptor \<Rightarrow> table_input option \<Rightarrow> datetime option
     \<Rightarrow> datetime option \<Rightarrow> table result" where
  "build fuel e st features0 keys0 start_datetime end_datetime =
     (if is_feature_view features0 \<and> unresolved features0
      then Some (Inl UnresolvedFeatureView, st)
      else
        bnd (get_table fuel e st (Descriptor features0)) (\<lambda>table0 st1.
          bnd (case keys0 of
                 None \<Rightarrow> Some (Inr table0, st1)
               | Some ks \<Rightarrow> filter_table_by_keys (get_table fuel e) e st1 table0 keys0)
            (\<lambda>table1 st2.
               if start_datetime \<noteq> None \<or> end_datetime \<noteq> None
               then
                 (if timestamp_field features0 = None
                  then Some (Inl MissingTimestampField, st2)
                  else Some (Inr (drop_event_time
                                    (range_table_by_time table1 start_datetime end_datetime)),
                             st2))
               else Some (Inr (drop_event_time table1), st2))))"

section \<open>What a time filter keeps\<close>

text \<open>
  The rows of a plan, as far as the builder's own filters decide them. A row gives a cell
  to each of its fields; the event time is a timestamp with its fraction of a second.
  Timestamps compare field by field, the year first. The engine's \<^verbatim>\<open>to_timestamp\<close>
  reads the text \<^verbatim>\<open>yyyy-MM-dd HH:mm:ss\<close> as the timestamp with these fields and no
  fraction. A comparison with a missing or null operand does not hold. The rows of every
  other node are the engine's, given by \<open>engine\<close>.
\<close>

datatype cell = TimestampCell datetime | StringCell string | NullCell

type_synonym row = "(string \<times> cell) list"

definition datetime_key :: "datetime \<Rightarrow> nat \<times> nat \<times> nat \<times> nat \<times> nat \<times> nat \<times> nat" where
  "datetime_key d = (year d, month d, day d, hour d, minute d, second d, microsecond d)"

definition digit_value :: "char \<Rightarrow> nat option" where
  "digit_value c =
     (let n = (of_char c :: nat) in if 48 \<le> n \<and> n \<le> 57 then Some (n - 48) else None)"

definition number :: "string \<Rightarrow> nat option" where
  "number cs =
     foldl (\<lambda>acc c. case acc of
                       None \<Rightarrow> None
                     | Some a \<Rightarrow> (case digit_value c of
                                    None \<Rightarrow> None
                                  | Some v \<Rightarrow> Some (10 * a + v)))
       (Some 0) cs"

definition to_timestamp :: "string \<Rightarrow> datetime option" where
  "to_timestamp s =
     (if length s = 19 \<and> s ! 4 = CHR ''-'' \<and> s ! 7 = CHR ''-'' \<and> s ! 10 = CHR '' ''
         \<and> s ! 13 = CHR '':'' \<and> s ! 16 = CHR '':''
      then
        (case (number (take 4 s), number (take 2 (drop 5 s)), number (take 2 (drop 8 s)),
               number (take 2 (drop 11 s)), number (take 2 (drop 14 s)),
               number (take 2 (drop 17 s))) of
           (Some y, Some mo, Some d, Some h, Some mi, Some se) \<Rightarrow>
             Some \<lparr>year = y, month = mo, day = d, hour = h, minute = mi, second = se,
                   microsecond = 0\<rparr>
         | _ \<Rightarrow> None)
      else None)"

fun eval_expr :: "expr \<Rightarrow> row \<Rightarrow> cell" where
  "eval_expr (Col c) r = (case map_of r c of Some v \<Rightarrow> v | None \<Rightarrow> NullCell)"
| "eval_expr (Lit s) r = StringCell s"
| "eval_expr (ToTimestamp x) r =
     (case eval_expr x r of
        StringCell s \<Rightarrow> (case to_timestamp s of Some d \<Rightarrow> TimestampCell d | None \<Rightarrow> NullCell)
      | TimestampCell d \<Rightarrow> TimestampCell d
      | NullCell \<Rightarrow> NullCell)"
| "eval_expr (Ge a b) r = NullCell"
| "eval_expr (Lt a b) r = NullCell"
| "eval_expr (CallSql s) r = NullCell"
| "eval_expr (Cast x ty) r = NullCell"
| "eval_expr (Alias x n) r = NullCell"

fun holds :: "expr \<Rightarrow> row \<Rightarrow> bool" where
  "holds (Ge a b) r =
     (case (eval_expr a r, eval_expr b r) of
        (TimestampCell x, TimestampCell y) \<Rightarrow> datetime_key y \<le> datetime_key x
      | _ \<Rightarrow> False)"
| "holds (Lt a b) r =
     (case (eval_expr a r, eval_expr b r) of
        (TimestampCell x, TimestampCell y) \<Rightarrow> datetime_key x < datetime_key y
      | _ \<Rightarrow> False)"
| "holds (Col c) r = False"
| "holds (Lit s) r = False"
| "holds (ToTimestamp x) r = False"
| "holds (CallSql s) r = False"
| "holds (Cast x ty) r = False"
| "holds (Alias x n) r = False"

fun rows_of :: "(table \<Rightarrow> row list) \<Rightarrow> table \<Rightarrow> row list" where
  "rows_of engine (Filter p t) = filter (holds p) (rows_of engine t)"
| "rows_of engine (DropColumns c t) =
     map (filter (\<lambda>field. fst field \<noteq> c)) (rows_of engine t)"
| "rows_of engine (NativeTable l fs) = engine (NativeTable l fs)"
| "rows_of engine (Select es t) = engine (Select es t)"
| "rows_of engine (AddOrReplaceColumns x t) = engine (AddOrReplaceColumns x t)"
| "rows_of engine (AddColumns x t) = engine (AddColumns x t)"

text \<open>The event time of a row, when it has one.\<close>

definition event_time :: "row \<Rightarrow> datetime option" where
  "event_time r =
     (case map_of r EVENT_TIME_ATTRIBUTE_NAME of
        Some (TimestampCell d) \<Rightarrow> Some d
      | _ \<Rightarrow> None)"

text \<open>The fields a \<^verbatim>\<open>datetime\<close> of Python can have, for the years written on four digits.\<close>

definition valid_datetime :: "datetime \<Rightarrow> bool" where
  "valid_datetime d \<longleftrightarrow>
     1000 \<le> year d \<and> year d \<le> 9999 \<and> 1 \<le> month d \<and> month d \<le> 12 \<and> 1 \<le> day d \<and> day d \<le> 31
     \<and> hour d < 24 \<and> minute d < 60 \<and> second d < 60 \<and> microsecond d < 1000000"

section \<open>Example session\<close>

text \<open>
  A small session on which the theorems below are evaluated: helper modules that return
  native tables with the fields one expects of them, a registry of source tables, and
  views over a source of purchases.
\<close>

fun example_returns :: "call \<Rightarrow> table" where
  "example_returns (FromPandas df) = NativeTable ''pandas'' (columns df)"
| "example_returns (GetTableFromSource d) =
     NativeTable (descriptor_name d) [''user_id'', ''spend'', ''ts'', EVENT_TIME_ATTRIBUTE_NAME]"
| "example_returns (JoinTableOnKey key_table t ks) = NativeTable ''key_join'' (field_names t)"
| "example_returns (EvaluateOverWindowTransform t d aggs) =
     NativeTable ''over_window'' (field_names t @ map field_name aggs)"
| "example_returns (TemporalJoin l r ks descriptors) =
     NativeTable ''temporal_join''
       (field_names l @ filter (\<lambda>n. n \<notin> set (field_names l)) (map fst descriptors))"
| "example_returns (EvaluateSlidingWindowTransform t d aggs) =
     NativeTable ''sliding_window''
       (sw_group_by_keys d @ map field_name aggs @ [EVENT_TIME_ATTRIBUTE_NAME])"
| "example_returns (FullOuterJoinOnKeyWithDefaultValue l r ks defaults) =
     NativeTable ''full_outer_join''
       (field_names l @ filter (\<lambda>n. n \<notin> set (field_names l)) (field_names r))"

definition example_env :: env where
  "example_env =
     \<lparr>registry_get_features = (\<lambda>n. FeatureTable n (Some ''ts'') ''registry''),
      returns = example_returns,
      view_output_fields =
        (\<lambda>feature_view source_fields.
           source_fields
           @ filter (\<lambda>n. n \<notin> set source_fields) (map name (features feature_view))),
      to_flink_type = (\<lambda>ty. ty),
      to_java_date_format = (\<lambda>fmt. fmt)\<rparr>"

definition new_session :: state where
  "new_session = \<lparr>built_tables = Map.empty, calls = []\<rparr>"

definition purchases :: TableDescriptor where
  "purchases = FeatureTable ''purchases'' (Some ''ts'') ''kafka''"

definition unresolved_view :: TableDescriptor where
  "unresolved_view = DerivedFeatureView ''v'' purchases [] (Some ''ts'') True"

section \<open>Notions the properties are stated with\<close>

text \<open>
  All the features a feature depends on: its inputs, their inputs, and so on.
\<close>

fun transitive_inputs :: "Feature \<Rightarrow> Feature list" where
  "transitive_inputs (Feature n ty t ks ins) =
     concat (map (\<lambda>i. i # transitive_inputs i) ins)"

text \<open>\<open>a\<close> stands before the first \<open>b\<close> of the sequence.\<close>

definition placed_before :: "'a \<Rightarrow> 'a \<Rightarrow> 'a list \<Rightarrow> bool" where
  "placed_before a b xs \<longleftrightarrow> b \<in> set xs \<and> a \<in> set (takeWhile (\<lambda>x. x \<noteq> b) xs)"

text \<open>
  Features for the example session: \<open>top\<close> and \<open>other\<close> are computed from \<open>mid\<close>,
  which is computed from \<open>leaf\<close>.
\<close>

definition leaf :: Feature where
  "leaf = Feature ''h'' ''int'' (ExpressionTransform ''spend'') None []"

definition mid :: Feature where
  "mid = Feature ''g'' ''int'' (ExpressionTransform ''h + 1'') None [leaf]"

definition top :: Feature where
  "top = Feature ''f'' ''int'' (ExpressionTransform ''g * 2'') None [mid]"

definition other :: Feature where
  "other = Feature ''e'' ''int'' (ExpressionTransform ''g - 1'') None [mid]"

definition nested_view :: TableDescriptor where
  "nested_view = DerivedFeatureView ''nested'' purchases [top] (Some ''ts'') False"

definition shared_view :: TableDescriptor where
  "shared_view = DerivedFeatureView ''shared'' purchases [other, mid] (Some ''ts'') False"

text \<open>
  A session is a sequence of requests made of one builder. A request that raises leaves
  the builder in the state it reached; the session goes on from there.
\<close>

datatype request =
    GetTable nat table_input
  | Build nat TableDescriptor "table_input option" "datetime option" "datetime option"

fun run_session :: "env \<Rightarrow> request list \<Rightarrow> state \<Rightarrow> state option" where
  "run_session e [] st = Some st"
| "run_session e (GetTable fuel features0 # rest) st =
     (case get_table fuel e st features0 of
        None \<Rightarrow> None
      | Some (r, st') \<Rightarrow> run_session e rest st')"
| "run_session e (Build fuel features0 keys0 start_datetime end_datetime # rest) st =
     (case build fuel e st features0 keys0 start_datetime end_datetime of
        None \<Rightarrow> None
      | Some (r, st') \<Rightarrow> run_session e rest st')"

text \<open>
  Example sessions: one that has built the source \<open>purchases\<close>, and a view that has
  the name of its own source.
\<close>

definition purchases_table :: table where
  "purchases_table =
     NativeTable ''purchases'' [''user_id'', ''spend'', ''ts'', EVENT_TIME_ATTRIBUTE_NAME]"

definition purchases_session :: state where
  "purchases_session =
     \<lparr>built_tables = [''purchases'' \<mapsto> (purchases, purchases_table)],
      calls = [GetTableFromSource purchases]\<rparr>"

definition other_purchases :: TableDescriptor where
  "other_purchases = FeatureTable ''purchases'' None ''files''"

definition same_name_source :: TableDescriptor where
  "same_name_source = FeatureTable ''a'' (Some ''ts'') ''kafka''"

definition same_name_view :: TableDescriptor where
  "same_name_view = DerivedFeatureView ''a'' same_name_source [] (Some ''ts'') False"

definition same_name_table :: table where
  "same_name_table =
     Select [Col ''user_id'', Col ''spend'', Col ''ts'', Col EVENT_TIME_ATTRIBUTE_NAME]
       (NativeTable ''a'' [''user_id'', ''spend'', ''ts'', EVENT_TIME_ATTRIBUTE_NAME])"

definition same_name_session :: state where
  "same_name_session =
     \<lparr>built_tables = [''a'' \<mapsto> (same_name_view, same_name_table)],
      calls = [GetTableFromSource same_name_source]\<rparr>"

text \<open>
  The features the dispatch loop classifies: those whose name is not a field of
  \<^verbatim>\<open>tmp_table\<close> when the loop reaches them. The loop adds a field only for an
  expression feature, so the fields of \<^verbatim>\<open>tmp_table\<close> are followed along.
\<close>

fun pending_features :: "string list \<Rightarrow> Feature list \<Rightarrow> Feature list" where
  "pending_features table_fields0 [] = []"
| "pending_features table_fields0 (feature # rest) =
     (if name feature \<in> set table_fields0 then pending_features table_fields0 rest
      else feature #
             pending_features
               (case transform feature of
                  ExpressionTransform ex \<Rightarrow> table_fields0 @ [name feature]
                | _ \<Rightarrow> table_fields0)
               rest)"

fun is_over_window :: "transform \<Rightarrow> bool" where
  "is_over_window (OverWindowTransform ae af pk ok) = True"
| "is_over_window (ExpressionTransform ex) = False"
| "is_over_window (SlidingWindowTransform ae af gk ws ss) = False"
| "is_over_window (JoinTransform tn fn) = False"
| "is_over_window (OtherTransform kind) = False"

fun is_join :: "transform \<Rightarrow> bool" where
  "is_join (JoinTransform tn fn) = True"
| "is_join (ExpressionTransform ex) = False"
| "is_join (OverWindowTransform ae af pk ok) = False"
| "is_join (SlidingWindowTransform ae af gk ws ss) = False"
| "is_join (OtherTransform kind) = False"

text \<open>
  The helper calls made between two states of a session, and among calls the over-window
  aggregations (with the descriptor and the aggregation fields passed) and the temporal
  joins (with the right table, the keys and the field descriptors passed).
\<close>

definition calls_since :: "state \<Rightarrow> state \<Rightarrow> call list" where
  "calls_since st st' = drop (length (calls st)) (calls st')"

fun over_window_call ::
  "call \<Rightarrow> (OverWindowDescriptor \<times> AggregationFieldDescriptor list) list" where
  "over_window_call (EvaluateOverWindowTransform t d aggs) = [(d, aggs)]"
| "over_window_call (FromPandas df) = []"
| "over_window_call (GetTableFromSource d) = []"
| "over_window_call (JoinTableOnKey k t ks) = []"
| "over_window_call (TemporalJoin l r ks descriptors) = []"
| "over_window_call (EvaluateSlidingWindowTransform t d aggs) = []"
| "over_window_call (FullOuterJoinOnKeyWithDefaultValue l r ks defaults) = []"

definition over_window_calls ::
  "call list \<Rightarrow> (OverWindowDescriptor \<times> AggregationFieldDescriptor list) list" where
  "over_window_calls cs = concat (map over_window_call cs)"

fun temporal_join_call ::
  "call \<Rightarrow> (table \<times> string list \<times> (string \<times> JoinFieldDescriptor) list) list" where
  "temporal_join_call (TemporalJoin l r ks descriptors) = [(r, ks, descriptors)]"
| "temporal_join_call (FromPandas df) = []"
| "temporal_join_call (GetTableFromSource d) = []"
| "temporal_join_call (JoinTableOnKey k t ks) = []"
| "temporal_join_call (EvaluateOverWindowTransform t d aggs) = []"
| "temporal_join_call (EvaluateSlidingWindowTransform t d aggs) = []"
| "temporal_join_call (FullOuterJoinOnKeyWithDefaultValue l r ks defaults) = []"

definition temporal_join_calls ::
  "call list \<Rightarrow> (table \<times> string list \<times> (string \<times> JoinFieldDescriptor) list) list" where
  "temporal_join_calls cs = concat (map temporal_join_call cs)"

text \<open>
  A view for the example session: two running aggregates over one window, and two
  fields joined from the table \<open>users\<close> on one key.
\<close>

definition total_spend :: Feature where
  "total_spend =
     Feature ''total_spend'' ''float''
       (OverWindowTransform ''spend'' ''SUM'' [''user_id''] ''ts'') None []"

definition purchase_count :: Feature where
  "purchase_count =
     Feature ''purchase_count'' ''int''
       (OverWindowTransform ''spend'' ''COUNT'' [''user_id''] ''ts'') None []"

definition age :: Feature where
  "age = Feature ''age'' ''int'' (JoinTransform ''users'' ''age'') (Some [''user_id'']) []"

definition city :: Feature where
  "city = Feature ''city'' ''string'' (JoinTransform ''users'' ''city'') (Some [''user_id'']) []"

definition profile_view :: TableDescriptor where
  "profile_view =
     DerivedFeatureView ''profile'' purchases [total_spend, purchase_count, age, city]
       (Some ''ts'') False"

definition users :: TableDescriptor where
  "users = FeatureTable ''users'' (Some ''ts'') ''registry''"

definition users_table :: table where
  "users_table =
     NativeTable ''users'' [''user_id'', ''spend'', ''ts'', EVENT_TIME_ATTRIBUTE_NAME]"

text \<open>A join feature that declares an empty sequence of keys, and a view of it.\<close>

definition keyless_age :: Feature where
  "keyless_age = Feature ''age'' ''int'' (JoinTransform ''users'' ''age'') (Some []) []"

definition keyless_view :: TableDescriptor where
  "keyless_view = DerivedFeatureView ''keyless'' purchases [keyless_age] (Some ''ts'') False"

text \<open>
  The fields of the right table a join feature needs: its keys, the timestamp field of
  the table it joins, the event-time column and the field it asks for.
\<close>

definition join_fields :: "(string \<times> TableDescriptor) list \<Rightarrow> Feature \<Rightarrow> string set" where
  "join_fields descriptors_by_names feature =
     (case keys feature of None \<Rightarrow> {} | Some ks \<Rightarrow> set ks)
     \<union> (case map_of descriptors_by_names (table_name (transform feature)) of
          None \<Rightarrow> {}
        | Some right_table_descriptor \<Rightarrow>
            (case timestamp_field right_table_descriptor of None \<Rightarrow> {} | Some ts \<Rightarrow> {ts}))
     \<union> {EVENT_TIME_ATTRIBUTE_NAME, feature_name (transform feature)}"

text \<open>
  A join feature without keys and a view of it; the session after the source and the
  joined table have been fetched; and what compiling \<open>keyless_view\<close> and
  \<open>profile_view\<close> in a new session gives.
\<close>

definition unkeyed_age :: Feature where
  "unkeyed_age = Feature ''age'' ''int'' (JoinTransform ''users'' ''age'') None []"

definition unkeyed_view :: TableDescriptor where
  "unkeyed_view = DerivedFeatureView ''unkeyed'' purchases [unkeyed_age] (Some ''ts'') False"

definition users_session :: state where
  "users_session =
     \<lparr>built_tables =
        [''purchases'' \<mapsto> (purchases, purchases_table), ''users'' \<mapsto> (users, users_table)],
      calls = [GetTableFromSource purchases, GetTableFromSource users]\<rparr>"

definition keyless_join_fields :: "(string \<times> JoinFieldDescriptor) list" where
  "keyless_join_fields =
     [(''ts'', JoinField_from_field_name ''ts''),
      (EVENT_TIME_ATTRIBUTE_NAME, JoinField_from_field_name EVENT_TIME_ATTRIBUTE_NAME),
      (''age'', JoinField_from_table_descriptor_and_field_name users ''age'')]"

definition keyless_table :: table where
  "keyless_table =
     Select [Col ''user_id'', Col ''spend'', Col ''ts'', Col EVENT_TIME_ATTRIBUTE_NAME,
             Col ''age'']
       (NativeTable ''temporal_join''
          [''user_id'', ''spend'', ''ts'', EVENT_TIME_ATTRIBUTE_NAME, ''age''])"

definition keyless_session :: state where
  "keyless_session =
     \<lparr>built_tables =
        [''purchases'' \<mapsto> (purchases, purchases_table), ''users'' \<mapsto> (users, users_table),
         ''keyless'' \<mapsto> (keyless_view, keyless_table)],
      calls =
        [GetTableFromSource purchases, GetTableFromSource users,
         TemporalJoin purchases_table
           (Select [Col ''ts'', Col EVENT_TIME_ATTRIBUTE_NAME, Col ''age''] users_table)
           [] keyless_join_fields]\<rparr>"

definition profile_window :: OverWindowDescriptor where
  "profile_window = OverWindowDescriptor [''user_id''] ''ts''"

definition profile_join_fields :: "(string \<times> JoinFieldDescriptor) list" where
  "profile_join_fields =
     [(''user_id'', JoinField_from_field_name ''user_id''),
      (''ts'', JoinField_from_field_name ''ts''),
      (EVENT_TIME_ATTRIBUTE_NAME, JoinField_from_field_name EVENT_TIME_ATTRIBUTE_NAME),
      (''age'', JoinField_from_table_descriptor_and_field_name users ''age''),
      (''city'', JoinField_from_table_descriptor_and_field_name users ''city'')]"

definition profile_right_table :: table where
  "profile_right_table =
     Select [Col ''user_id'', Col ''ts'', Col EVENT_TIME_ATTRIBUTE_NAME, Col ''age'',
             Col ''city''] users_table"

definition profile_table :: table where
  "profile_table =
     Select [Col ''user_id'', Col ''spend'', Col ''ts'', Col EVENT_TIME_ATTRIBUTE_NAME,
             Col ''total_spend'', Col ''purchase_count'', Col ''age'', Col ''city'']
       (NativeTable ''temporal_join''
          [''user_id'', ''spend'', ''ts'', EVENT_TIME_ATTRIBUTE_NAME, ''total_spend'',
           ''purchase_count'', ''age'', ''city''])"

definition profile_session :: state where
  "profile_session =
     \<lparr>built_tables =
        [''purchases'' \<mapsto> (purchases, purchases_table), ''users'' \<mapsto> (users, users_table)],
      calls =
        [GetTableFromSource purchases, GetTableFromSource users,
         EvaluateOverWindowTransform purchases_table profile_window
           [from_feature total_spend, from_feature purchase_count],
         TemporalJoin
           (NativeTable ''over_window''
              [''user_id'', ''spend'', ''ts'', EVENT_TIME_ATTRIBUTE_NAME, ''total_spend'',
               ''purchase_count''])
           profile_right_table [''user_id''] profile_join_fields]\<rparr>"

definition profile_built_session :: state where
  "profile_built_session =
     profile_session
       \<lparr>built_tables :=
          (built_tables profile_session)(''profile'' \<mapsto> (profile_view, profile_table))\<rparr>"

text \<open>
  Rows and bounds with a fraction of a second: two rows at 0.2 s and 1.2 s after midnight,
  two bounds at 0.5 s and 1.5 s, and an engine whose tables hold the two rows.
\<close>

definition midnight_plus :: "nat \<Rightarrow> nat \<Rightarrow> datetime" where
  "midnight_plus s us =
     \<lparr>year = 2022, month = 1, day = 1, hour = 0, minute = 0, second = s, microsecond = us\<rparr>"

definition early_row :: row where
  "early_row =
     [(''user_id'', StringCell ''u1''),
      (EVENT_TIME_ATTRIBUTE_NAME, TimestampCell (midnight_plus 0 200000))]"

definition late_row :: row where
  "late_row =
     [(''user_id'', StringCell ''u1''),
      (EVENT_TIME_ATTRIBUTE_NAME, TimestampCell (midnight_plus 1 200000))]"

definition example_engine :: "table \<Rightarrow> row list" where
  "example_engine t = [early_row, late_row]"

section \<open>The cache only grows\<close>

text \<open>
  A call that comes back, with a table or with an exception, leaves every cache entry it
  found as it was: an entry is written only for a name that was not cached when the call
  started.
\<close>

lemma bnd_Some:
  "bnd m f = Some (r, st') \<longleftrightarrow>
     (\<exists>err. m = Some (Inl err, st') \<and> r = Inl err)
     \<or> (\<exists>x st1. m = Some (Inr x, st1) \<and> f x st1 = Some (r, st'))"
  by (auto simp: bnd_def split: option.splits sum.splits prod.splits)

lemma invoke_cache: "invoke e c st = (t, st') \<Longrightarrow> built_tables st' = built_tables st"
  by (auto simp: invoke_def)

lemma evaluate_over_windows_cache:
  "evaluate_over_windows e wam tmp st = (t, st') \<Longrightarrow> built_tables st' = built_tables st"
  by (induction e wam tmp st rule: evaluate_over_windows.induct)
     (auto simp: invoke_def split: prod.splits)

lemma join_right_tables_cache:
  "join_right_tables e tbn rt tmp st = (r, st') \<Longrightarrow> built_tables st' = built_tables st"
  by (induction e tbn rt tmp st rule: join_right_tables.induct)
     (auto simp: invoke_def Let_def split: prod.splits option.splits)

lemma evaluate_sliding_windows_cache:
  "evaluate_sliding_windows e tmp m agg dv st = (r, st') \<Longrightarrow> built_tables st' = built_tables st"
  by (induction e tmp m agg dv st rule: evaluate_sliding_windows.induct)
     (auto simp: invoke_def Let_def split: prod.splits option.splits)

lemma get_join_tables_cache:
  assumes rec: "\<And>st inp r st'. rec st inp = Some (r, st') \<Longrightarrow> built_tables st \<subseteq>\<^sub>m built_tables st'"
  shows "get_join_tables rec e names tbn dbn st = Some (r, st')
         \<Longrightarrow> built_tables st \<subseteq>\<^sub>m built_tables st'"
proof (induction names arbitrary: tbn dbn st)
  case Nil
  then show ?case by simp
next
  case (Cons n names)
  then show ?case
    by (auto simp: Let_def split: option.splits sum.splits prod.splits
        dest!: rec intro: map_le_trans)
qed

lemma assemble_derived_table_cache:
  "assemble_derived_table e fv src tbn dbn deps st = (r, st')
   \<Longrightarrow> built_tables st' = built_tables st"
  by (auto simp: assemble_derived_table_def split: sum.splits prod.splits
      dest!: evaluate_over_windows_cache join_right_tables_cache)

lemma assemble_sliding_table_cache:
  "assemble_sliding_table e fv src deps st = (r, st')
   \<Longrightarrow> built_tables st' = built_tables st"
  by (auto simp: assemble_sliding_table_def Let_def split: sum.splits prod.splits
      dest!: evaluate_sliding_windows_cache)

lemma derived_view_cases:
  assumes run: "get_table_from_derived_feature_view rec e st fv = Some (r, st')"
  obtains
    (source_fails) err where
      "rec st (Descriptor (source fv)) = Some (Inl err, st')" "r = Inl err"
  | (not_resolved) src err where
      "rec st (Descriptor (source fv)) = Some (Inr src, st')" "r = Inl err"
  | (join_table_fails) src st1 deps err where
      "rec st (Descriptor (source fv)) = Some (Inr src, st1)"
      "get_dependent_features fv = Inr deps"
      "get_join_tables rec e (join_table_names (features fv)) [] [] st1 = Some (Inl err, st')"
      "r = Inl err"
  | (assembled) src st1 deps tbn dbn st2 where
      "rec st (Descriptor (source fv)) = Some (Inr src, st1)"
      "get_dependent_features fv = Inr deps"
      "get_join_tables rec e (join_table_names (features fv)) [] [] st1 =
         Some (Inr (tbn, dbn), st2)"
      "assemble_derived_table e fv src tbn dbn deps st2 = (r, st')"
proof (cases "rec st (Descriptor (source fv))")
  case None
  then show ?thesis using run
    by (simp add: get_table_from_derived_feature_view_def bnd_def)
next
  case (Some p)
  obtain res st1 where p: "p = (res, st1)" by (cases p)
  show ?thesis
  proof (cases res)
    case (Inl err)
    then show ?thesis using run Some p source_fails
      by (auto simp: get_table_from_derived_feature_view_def bnd_def)
  next
    case (Inr src)
    note src = Some [unfolded p Inr]
    show ?thesis
    proof (cases "get_dependent_features fv")
      case (Inl err)
      then show ?thesis using run src not_resolved [of src err]
        by (simp add: get_table_from_derived_feature_view_def bnd_def)
    next
      case deps: (Inr deps)
      then have res: "get_resolved_features fv = Inr (features fv)"
        by (auto simp: get_dependent_features_def get_resolved_features_def
            split: if_splits)
      let ?j = "get_join_tables rec e (join_table_names (features fv)) [] [] st1"
      from run src deps res have j:
        "bnd ?j (\<lambda>(table_by_names, descriptors_by_names) st2.
            Some (assemble_derived_table e fv src table_by_names descriptors_by_names
                    deps st2)) = Some (r, st')"
        by (simp add: get_table_from_derived_feature_view_def bnd_def)
      show ?thesis
      proof (cases ?j)
        case None
        then show ?thesis using j by (simp add: bnd_def)
      next
        case (Some q)
        obtain res2 st2 where q: "q = (res2, st2)" by (cases q)
        show ?thesis
        proof (cases res2)
          case (Inl err)
          then show ?thesis using j Some q join_table_fails [OF src deps, of err]
            by (simp add: bnd_def)
        next
          case (Inr tabs)
          obtain tbn dbn where tabs: "tabs = (tbn, dbn)" by (cases tabs)
          show ?thesis using j Some q Inr tabs assembled [OF src deps, of tbn dbn st2]
            by (simp add: bnd_def)
        qed
      qed
    qed
  qed
qed

lemma sliding_view_cases:
  assumes run: "get_table_from_sliding_feature_view rec e st fv = Some (r, st')"
  obtains
    (source_fails) err where
      "rec st (Descriptor (source fv)) = Some (Inl err, st')" "r = Inl err"
  | (not_resolved) src err where
      "rec st (Descriptor (source fv)) = Some (Inr src, st')" "r = Inl err"
  | (assembled) src st1 deps where
      "rec st (Descriptor (source fv)) = Some (Inr src, st1)"
      "get_dependent_features fv = Inr deps"
      "assemble_sliding_table e fv src deps st1 = (r, st')"
proof (cases "rec st (Descriptor (source fv))")
  case None
  then show ?thesis using run
    by (simp add: get_table_from_sliding_feature_view_def bnd_def)
next
  case (Some p)
  obtain res st1 where p: "p = (res, st1)" by (cases p)
  show ?thesis
  proof (cases res)
    case (Inl err)
    then show ?thesis using run Some p source_fails
      by (auto simp: get_table_from_sliding_feature_view_def bnd_def)
  next
    case (Inr src)
    note src = Some [unfolded p Inr]
    show ?thesis
    proof (cases "get_dependent_features fv")
      case (Inl err)
      then show ?thesis using run src not_resolved [of src err]
        by (simp add: get_table_from_sliding_feature_view_def bnd_def)
    next
      case deps: (Inr deps)
      then show ?thesis using run src assembled [OF src deps]
        by (simp add: get_table_from_sliding_feature_view_def bnd_def)
    qed
  qed
qed

lemma derived_view_cache:
  assumes rec: "\<And>st inp r st'. rec st inp = Some (r, st') \<Longrightarrow> built_tables st \<subseteq>\<^sub>m built_tables st'"
    and run: "get_table_from_derived_feature_view rec e st fv = Some (r, st')"
  shows "built_tables st \<subseteq>\<^sub>m built_tables st'"
  using run
proof (cases rule: derived_view_cases)
  case (source_fails err)
  then show ?thesis using rec by blast
next
  case (not_resolved src err)
  then show ?thesis using rec by blast
next
  case (join_table_fails src st1 deps err)
  have "built_tables st \<subseteq>\<^sub>m built_tables st1" using join_table_fails(1) by (rule rec)
  moreover have "built_tables st1 \<subseteq>\<^sub>m built_tables st'"
    by (rule get_join_tables_cache [of rec, OF rec join_table_fails(3)])
  ultimately show ?thesis by (rule map_le_trans)
next
  case (assembled src st1 deps tbn dbn st2)
  have "built_tables st \<subseteq>\<^sub>m built_tables st1" using assembled(1) by (rule rec)
  moreover have "built_tables st1 \<subseteq>\<^sub>m built_tables st2"
    by (rule get_join_tables_cache [of rec, OF rec assembled(3)])
  moreover have "built_tables st' = built_tables st2"
    using assembled(4) by (rule assemble_derived_table_cache)
  ultimately show ?thesis by (metis map_le_trans)
qed

lemma sliding_view_cache:
  assumes rec: "\<And>st inp r st'. rec st inp = Some (r, st') \<Longrightarrow> built_tables st \<subseteq>\<^sub>m built_tables st'"
    and run: "get_table_from_sliding_feature_view rec e st fv = Some (r, st')"
  shows "built_tables st \<subseteq>\<^sub>m built_tables st'"
  using run
proof (cases rule: sliding_view_cases)
  case (source_fails err)
  then show ?thesis using rec by blast
next
  case (not_resolved src err)
  then show ?thesis using rec by blast
next
  case (assembled src st1 deps)
  have "built_tables st \<subseteq>\<^sub>m built_tables st1" using assembled(1) by (rule rec)
  moreover have "built_tables st' = built_tables st1"
    using assembled(3) by (rule assemble_sliding_table_cache)
  ultimately show ?thesis by simp
qed

lemma get_table_cache:
  "get_table fuel e st inp = Some (r, st') \<Longrightarrow> built_tables st \<subseteq>\<^sub>m built_tables st'"
proof (induction fuel arbitrary: st inp r st')
  case 0
  then show ?case by simp
next
  case (Suc fuel)
  note rec = Suc.IH
  show ?case
  proof (cases inp)
    case (Frame df)
    then show ?thesis using Suc.prems by (auto simp: invoke_def)
  next
    case (Descriptor d)
    show ?thesis
    proof (cases "built_tables st (descriptor_name d)")
      case (Some c)
      then show ?thesis using Suc.prems Descriptor
        by (auto split: prod.splits if_splits)
    next
      case None
      have upd: "built_tables st \<subseteq>\<^sub>m (built_tables st1)(descriptor_name d \<mapsto> v)"
        if "built_tables st \<subseteq>\<^sub>m built_tables st1" for st1 v
        using that None by (auto simp: map_le_def dom_def)
      show ?thesis
      proof (cases d)
        case (FeatureTable n ts p)
        then show ?thesis using Suc.prems Descriptor None
          by (auto simp: invoke_def map_le_def)
      next
        case (DerivedFeatureView n src fs ts u)
        let ?run = "get_table_from_derived_feature_view (get_table fuel e) e st d"
        from DerivedFeatureView Suc.prems Descriptor None have
          "bnd ?run (\<lambda>t st1. Some (Inr t,
                 st1\<lparr>built_tables := (built_tables st1)(descriptor_name d \<mapsto> (d, t))\<rparr>))
           = Some (r, st')" by simp
        then consider
            (a) err where "?run = Some (Inl err, st')"
          | (b) t st1 where "?run = Some (Inr t, st1)"
              and "built_tables st' = (built_tables st1)(descriptor_name d \<mapsto> (d, t))"
          unfolding bnd_Some by auto
        then show ?thesis
        proof cases
          case a
          show ?thesis
            by (rule derived_view_cache [of "get_table fuel e", OF rec a])
        next
          case b
          have "built_tables st \<subseteq>\<^sub>m built_tables st1"
            by (rule derived_view_cache [of "get_table fuel e", OF rec b(1)])
          then show ?thesis unfolding b(2) by (rule upd)
        qed
      next
        case (SlidingFeatureView n src fs ts fmt u)
        let ?run = "get_table_from_sliding_feature_view (get_table fuel e) e st d"
        from SlidingFeatureView Suc.prems Descriptor None have
          "bnd ?run (\<lambda>t st1. Some (Inr t,
                 st1\<lparr>built_tables := (built_tables st1)(descriptor_name d \<mapsto> (d, t))\<rparr>))
           = Some (r, st')" by simp
        then consider
            (a) err where "?run = Some (Inl err, st')"
          | (b) t st1 where "?run = Some (Inr t, st1)"
              and "built_tables st' = (built_tables st1)(descriptor_name d \<mapsto> (d, t))"
          unfolding bnd_Some by auto
        then show ?thesis
        proof cases
          case a
          show ?thesis
            by (rule sliding_view_cache [of "get_table fuel e", OF rec a])
        next
          case b
          have "built_tables st \<subseteq>\<^sub>m built_tables st1"
            by (rule sliding_view_cache [of "get_table fuel e", OF rec b(1)])
          then show ?thesis unfolding b(2) by (rule upd)
        qed
      next
        case (OtherFeatureView n ts u)
        then show ?thesis using Suc.prems Descriptor None by auto
      next
        case (OtherTableDescriptor n ts)
        then show ?thesis using Suc.prems Descriptor None by auto
      qed
    qed
  qed
qed

text \<open>The definitions unfolded to evaluate the builder in the example session.\<close>

lemmas example_defs =
  example_env_def new_session_def purchases_def purchases_table_def purchases_session_def
  users_def users_table_def users_session_def invoke_def bnd_def
  get_table_from_derived_feature_view_def get_dependent_features_def
  get_resolved_features_def join_table_names_def assemble_derived_table_def
  get_output_fields_def dispatch_feature_def Let_def

section \<open>The dependent features of a view\<close>

text \<open>
  Both loops of \<^verbatim>\<open>_get_dependent_features\<close> only append: the sequence grows at its
  end, holds what it held plus what the loop went over, and stays free of repetitions.
\<close>

lemma add_input_features_prefix: "\<exists>ys. add_input_features ins dep = dep @ ys"
  by (induction ins arbitrary: dep) (auto, metis append.assoc)

lemma set_add_input_features: "set (add_input_features ins dep) = set dep \<union> set ins"
  by (induction ins arbitrary: dep) auto

lemma distinct_add_input_features:
  "distinct dep \<Longrightarrow> distinct (add_input_features ins dep)"
  by (induction ins arbitrary: dep) auto

lemma add_features_prefix: "\<exists>ys. add_features fs dep = dep @ ys"
proof (induction fs arbitrary: dep)
  case Nil
  then show ?case by simp
next
  case (Cons f fs)
  obtain ys where a: "add_input_features (input_features f) dep = dep @ ys"
    using add_input_features_prefix by blast
  show ?case
  proof (cases "f \<in> set (dep @ ys)")
    case True
    then show ?thesis using Cons.IH [of "dep @ ys"] a by (auto simp: Let_def)
  next
    case False
    then show ?thesis using Cons.IH [of "dep @ ys @ [f]"] a by (auto simp: Let_def)
  qed
qed

lemma set_add_features:
  "set (add_features fs dep) = set dep \<union> set fs \<union> (\<Union>f\<in>set fs. set (input_features f))"
  by (induction fs arbitrary: dep) (auto simp: Let_def set_add_input_features)

lemma distinct_add_features: "distinct dep \<Longrightarrow> distinct (add_features fs dep)"
  by (induction fs arbitrary: dep) (auto simp: Let_def distinct_add_input_features)

lemma add_features_append:
  "add_features (xs @ ys) dep = add_features ys (add_features xs dep)"
  by (induction xs arbitrary: dep) (auto simp: Let_def)

lemma placed_before_append: "placed_before a b xs \<Longrightarrow> placed_before a b (xs @ ys)"
  by (auto simp: placed_before_def takeWhile_append)

lemma placed_before_snoc: "a \<in> set xs \<Longrightarrow> b \<notin> set xs \<Longrightarrow> placed_before a b (xs @ [b])"
  by (auto simp: placed_before_def takeWhile_append)

lemma input_feature_smaller: "i \<in> set (input_features f) \<Longrightarrow> size i < size f"
  by (cases f) (auto simp: less_Suc_eq_le dest: size_list_estimation')


lemma inputs_before_new_feature:
  assumes "f \<notin> set dep" and "i \<in> set (input_features f)"
  shows "placed_before i f (add_features (f # post) dep)"
proof -
  let ?w = "add_input_features (input_features f) dep"
  have neq: "\<And>j. j \<in> set (input_features f) \<Longrightarrow> j \<noteq> f"
    using input_feature_smaller by blast
  have "f \<notin> set ?w" using assms(1) neq by (auto simp: set_add_input_features)
  moreover have "i \<in> set ?w" using assms(2) by (simp add: set_add_input_features)
  ultimately have "placed_before i f (?w @ [f])" by (simp add: placed_before_snoc)
  moreover obtain ys where "add_features post (?w @ [f]) = (?w @ [f]) @ ys"
    using add_features_prefix by blast
  ultimately have "placed_before i f (add_features post (?w @ [f]))"
    using placed_before_append by metis
  then show ?thesis using \<open>f \<notin> set ?w\<close> by (simp add: Let_def)
qed

text \<open>
  C1 (as amended). For a resolved view, the sequence of \<^verbatim>\<open>_get_dependent_features\<close>
  holds exactly the declared features and their direct \<^verbatim>\<open>input_features\<close>, each once
  (by structural equality); so every declared feature is there, also when it is an input
  of another one. A declared feature that is not declared earlier and is not a direct
  input of an earlier declared feature stands after all of its direct inputs. The inputs
  of inputs are not looked at.
\<close>

theorem dependent_features_direct_inputs:
  assumes "get_dependent_features feature_view = Inr dependent_features"
  shows "distinct dependent_features
     \<and> set dependent_features =
         set (features feature_view)
         \<union> (\<Union>f\<in>set (features feature_view). set (input_features f))
     \<and> (\<forall>earlier f later.
           features feature_view = earlier @ f # later
           \<and> f \<notin> set earlier \<and> (\<forall>g\<in>set earlier. f \<notin> set (input_features g))
           \<longrightarrow> (\<forall>i\<in>set (input_features f). placed_before i f dependent_features))"
proof -
  from assms have res: "\<not> unresolved feature_view"
    and deps: "dependent_features = add_features (features feature_view) []"
    by (auto simp: get_dependent_features_def get_resolved_features_def split: if_splits)
  have "distinct dependent_features" by (simp add: deps distinct_add_features)
  moreover have "set dependent_features =
         set (features feature_view)
         \<union> (\<Union>f\<in>set (features feature_view). set (input_features f))"
    by (simp add: deps set_add_features)
  moreover have "placed_before i f dependent_features"
    if split: "features feature_view = earlier @ f # later"
      and new: "f \<notin> set earlier" "\<forall>g\<in>set earlier. f \<notin> set (input_features g)"
      and i: "i \<in> set (input_features f)"
    for earlier f later i
  proof -
    have "f \<notin> set (add_features earlier [])"
      using new by (auto simp: set_add_features)
    then have "placed_before i f (add_features (f # later) (add_features earlier []))"
      using i by (rule inputs_before_new_feature)
    then show ?thesis by (simp add: deps split add_features_append)
  qed
  ultimately show ?thesis by blast
qed

theorem dependent_features_direct_inputs_witness:
  "get_dependent_features nested_view = Inr [mid, top]
   \<and> distinct [mid, top]
   \<and> set [mid, top] = set [top] \<union> set (input_features top)
   \<and> placed_before mid top [mid, top]"
proof -
  have g: "get_dependent_features nested_view = Inr [mid, top]"
    by (simp add: get_dependent_features_def get_resolved_features_def nested_view_def
        top_def mid_def leaf_def)
  note t = dependent_features_direct_inputs [OF g]
  have "features nested_view = [] @ top # [] \<and> top \<notin> set []
        \<and> (\<forall>g\<in>set []. top \<notin> set (input_features g))"
    by (simp add: nested_view_def)
  moreover have "mid \<in> set (input_features top)" by (simp add: top_def)
  ultimately have "placed_before mid top [mid, top]"
    using t [THEN conjunct2, THEN conjunct2] by blast
  moreover have "distinct [mid, top]" using t by blast
  moreover have "set [mid, top] = set [top] \<union> set (input_features top)"
    using t [THEN conjunct2, THEN conjunct1] by (simp add: nested_view_def)
  ultimately show ?thesis using g by blast
qed

text \<open>
  C1 as stated does not hold. In \<open>nested_view\<close> the declared feature \<open>top\<close> has the
  transitive input \<open>leaf\<close>, which the sequence does not contain. In \<open>shared_view\<close> the
  declared feature \<open>mid\<close> enters as an input of \<open>other\<close>, and its own input \<open>leaf\<close> is
  appended after it.
\<close>

theorem transitive_inputs_counterexample:
  "get_dependent_features nested_view = Inr [mid, top]
   \<and> leaf \<in> set (transitive_inputs top)
   \<and> \<not> placed_before leaf top [mid, top]
   \<and> get_dependent_features shared_view = Inr [mid, other, leaf]
   \<and> leaf \<in> set (input_features mid)
   \<and> \<not> placed_before leaf mid [mid, other, leaf]"
  by (simp add: get_dependent_features_def get_resolved_features_def nested_view_def
      shared_view_def top_def mid_def leaf_def other_def placed_before_def)

section \<open>A different descriptor under a cached name\<close>

text \<open>
  C2. When the name of a descriptor is cached with a descriptor that is not structurally
  equal to it, \<^verbatim>\<open>_get_table\<close> raises the exception of lines 171 to 174 and leaves the
  session as it was, the cache entry of that name included; this for every pair of
  different descriptors with one name. \<^verbatim>\<open>build\<close> fails in the same way and leaves the
  session as it was; the exception is the same one, unless the descriptor is a view that
  is not resolved, which \<^verbatim>\<open>build\<close> refuses before it looks at the cache.
\<close>

theorem conflicting_descriptor_raises:
  assumes "built_tables st (descriptor_name d) = Some (cached, t)" and "d \<noteq> cached"
  shows "get_table (Suc fuel) e st (Descriptor d) = Some (Inl DifferentDescriptorSameName, st)
     \<and> build (Suc fuel) e st d keys0 start_datetime end_datetime =
         Some (Inl (if is_feature_view d \<and> unresolved d then UnresolvedFeatureView
                    else DifferentDescriptorSameName), st)"
  using assms by (simp add: build_def bnd_def)

theorem conflicting_descriptor_raises_witness:
  "built_tables purchases_session (descriptor_name other_purchases)
     = Some (purchases, purchases_table)
   \<and> other_purchases \<noteq> purchases
   \<and> get_table (Suc 0) example_env purchases_session (Descriptor other_purchases)
       = Some (Inl DifferentDescriptorSameName, purchases_session)
   \<and> build (Suc 0) example_env purchases_session other_purchases None None None
       = Some (Inl DifferentDescriptorSameName, purchases_session)"
proof -
  have a: "built_tables purchases_session (descriptor_name other_purchases)
             = Some (purchases, purchases_table)"
    by (simp add: purchases_session_def other_purchases_def)
  have b: "other_purchases \<noteq> purchases"
    by (simp add: other_purchases_def purchases_def)
  from conflicting_descriptor_raises [OF a b, of 0 example_env None None None] a b
  show ?thesis by (simp add: other_purchases_def)
qed

section \<open>A descriptor asked for again\<close>

text \<open>
  Once a request for a descriptor has come back with a table, the cache holds the
  descriptor and that table under its name, and no later request changes the entry.
\<close>

lemma get_table_caches_result:
  assumes "get_table fuel e st (Descriptor d) = Some (Inr t, st1)"
  shows "built_tables st1 (descriptor_name d) = Some (d, t)"
proof (cases fuel)
  case 0
  then show ?thesis using assms by simp
next
  case (Suc k)
  show ?thesis
  proof (cases "built_tables st (descriptor_name d)")
    case (Some c)
    then show ?thesis using assms Suc by (auto split: prod.splits if_splits)
  next
    case None
    then show ?thesis using assms Suc
      by (cases d) (auto simp: invoke_def bnd_Some)
  qed
qed

lemma filter_table_by_keys_cache:
  assumes "filter_table_by_keys (get_table fuel e) e st t0 ks = Some (r, st')"
  shows "built_tables st \<subseteq>\<^sub>m built_tables st'"
proof (cases ks)
  case None
  then show ?thesis using assms by (simp add: filter_table_by_keys_def)
next
  case (Some k)
  then show ?thesis using assms
    by (auto simp: filter_table_by_keys_def bnd_Some invoke_def
        split: option.splits dest: get_table_cache)
qed

lemma build_cache:
  assumes "build fuel e st d ks s en = Some (r, st')"
  shows "built_tables st \<subseteq>\<^sub>m built_tables st'"
proof (cases "is_feature_view d \<and> unresolved d")
  case True
  then show ?thesis using assms by (simp add: build_def)
next
  case False
  with assms consider
      (a) err where "get_table fuel e st (Descriptor d) = Some (Inl err, st')"
    | (b) t0 st1 where "get_table fuel e st (Descriptor d) = Some (Inr t0, st1)"
        and "st' = st1 \<or> (\<exists>r'. filter_table_by_keys (get_table fuel e) e st1 t0 ks = Some (r', st'))"
    by (auto simp: build_def bnd_Some split: option.splits if_splits)
  then show ?thesis
  proof cases
    case a
    then show ?thesis by (rule get_table_cache)
  next
    case b
    have "built_tables st \<subseteq>\<^sub>m built_tables st1" using b(1) by (rule get_table_cache)
    moreover have "built_tables st1 \<subseteq>\<^sub>m built_tables st'"
      using b(2) by (auto dest: filter_table_by_keys_cache)
    ultimately show ?thesis by (rule map_le_trans)
  qed
qed

lemma run_session_cache:
  "run_session e requests st = Some st' \<Longrightarrow> built_tables st \<subseteq>\<^sub>m built_tables st'"
proof (induction requests arbitrary: st)
  case Nil
  then show ?case by simp
next
  case (Cons q requests)
  show ?case
  proof (cases q)
    case (GetTable fuel inp)
    with Cons.prems obtain r st1 where
      1: "get_table fuel e st inp = Some (r, st1)" and 2: "run_session e requests st1 = Some st'"
      by (auto split: option.splits)
    show ?thesis using get_table_cache [OF 1] Cons.IH [OF 2] by (rule map_le_trans)
  next
    case (Build fuel d ks s en)
    with Cons.prems obtain r st1 where
      1: "build fuel e st d ks s en = Some (r, st1)" and 2: "run_session e requests st1 = Some st'"
      by (auto split: option.splits)
    show ?thesis using build_cache [OF 1] Cons.IH [OF 2] by (rule map_le_trans)
  qed
qed

text \<open>
  So a descriptor that one request has compiled is not compiled again: whatever requests
  come in between, asking for it again returns the same table, makes no helper call and
  leaves the cache as it is.
\<close>

lemma repeated_request_hits_cache:
  assumes first: "get_table fuel e st (Descriptor d) = Some (Inr t, st1)"
    and later: "run_session e requests st1 = Some st2"
  shows "get_table (Suc fuel') e st2 (Descriptor d) = Some (Inr t, st2)"
proof -
  have "built_tables st1 (descriptor_name d) = Some (d, t)"
    using first by (rule get_table_caches_result)
  moreover have "built_tables st1 \<subseteq>\<^sub>m built_tables st2"
    using later by (rule run_session_cache)
  ultimately have "built_tables st2 (descriptor_name d) = Some (d, t)"
    by (auto simp: map_le_def dom_def)
  then show ?thesis by simp
qed

text \<open>
  C3, where the code departs from it. The check of a cached name is made when
  \<^verbatim>\<open>_get_table\<close> is entered and the entry is written when it leaves, so a view that has
  the name of its own source is not refused: the source is compiled and cached under the
  name, and the view's entry then replaces it. Two tables have been compiled under one
  name, and asking for the source a second time raises the exception of a conflict
  instead of returning the table compiled for it.
\<close>

theorem same_name_view_replaces_its_source:
  "get_table (Suc (Suc 0)) example_env new_session (Descriptor same_name_view)
     = Some (Inr same_name_table, same_name_session)
   \<and> calls same_name_session = [GetTableFromSource same_name_source]
   \<and> built_tables same_name_session ''a'' = Some (same_name_view, same_name_table)
   \<and> get_table (Suc (Suc 0)) example_env same_name_session (Descriptor same_name_source)
       = Some (Inl DifferentDescriptorSameName, same_name_session)"
  by (simp add: example_env_def new_session_def same_name_view_def same_name_source_def
      same_name_table_def same_name_session_def invoke_def
      get_table_from_derived_feature_view_def bnd_def get_dependent_features_def
      get_resolved_features_def join_table_names_def assemble_derived_table_def
      get_output_fields_def)

section \<open>The dispatch loop of a derived view\<close>

text \<open>
  An iteration that does not raise either skips the feature, or evaluates an expression,
  or adds an aggregation to the batch of its window, or merges the fields of a join into
  the batch of its table and keys.
\<close>

lemma dispatch_feature_cases:
  assumes "dispatch_feature e fv src dbn f (tmp, wam, rt) = Inr acc'"
  obtains
    (skipped) "name f \<in> set (field_names tmp)" "acc' = (tmp, wam, rt)"
  | (expression) ex where "name f \<notin> set (field_names tmp)"
      "transform f = ExpressionTransform ex"
      "acc' = (evaluate_expression_transform e tmp (transform f) (name f) (dtype f), wam, rt)"
  | (over_window) ae af pk ok where "name f \<notin> set (field_names tmp)"
      "transform f = OverWindowTransform ae af pk ok"
      "timestamp_field fv \<noteq> None"
      "acc' = (tmp,
               AList.update (from_over_window_transform (transform f))
                 ((case map_of wam (from_over_window_transform (transform f)) of
                     None \<Rightarrow> [] | Some aggs \<Rightarrow> aggs) @ [from_feature f]) wam,
               rt)"
  | (join) tn fn ks rd rts where "name f \<notin> set (field_names tmp)"
      "transform f = JoinTransform tn fn" "keys f = Some ks"
      "set ks \<subseteq> set (field_names src)"
      "map_of dbn tn = Some rd" "timestamp_field rd = Some rts"
      "acc' = (tmp, wam,
               AList.update (tn, ks)
                 (add_join_fields rd rts fn ks
                    (case map_of rt (tn, ks) of None \<Rightarrow> [] | Some d \<Rightarrow> d)) rt)"
proof (cases "name f \<in> set (field_names tmp)")
  case True
  then show ?thesis using assms skipped by (simp add: dispatch_feature_def)
next
  case False
  show ?thesis
  proof (cases "transform f")
    case (ExpressionTransform ex)
    then show ?thesis using assms False expression [of ex]
      by (simp add: dispatch_feature_def)
  next
    case (OverWindowTransform ae af pk ok)
    then show ?thesis using assms False over_window [of ae af pk ok]
      by (simp add: dispatch_feature_def Let_def split: if_splits)
  next
    case (SlidingWindowTransform ae af gk ws ss)
    then show ?thesis using assms False by (simp add: dispatch_feature_def)
  next
    case (JoinTransform tn fn)
    have run:
      "(case keys f of
          None \<Rightarrow> Inl JoinWithoutKey
        | Some ks \<Rightarrow>
            if \<not> list_all (\<lambda>key. key \<in> set (field_names src)) ks
            then Inl SourceLacksJoinKeys
            else
              (case map_of dbn tn of
                 None \<Rightarrow> Inl (KeyError tn)
               | Some rd \<Rightarrow>
                   (case timestamp_field rd of
                      None \<Rightarrow> Inl JoinWithoutTimestampField
                    | Some rts \<Rightarrow>
                        (let descriptors =
                               (case map_of rt (tn, ks) of None \<Rightarrow> [] | Some d \<Rightarrow> d)
                         in Inr (tmp, wam,
                                 AList.update (tn, ks)
                                   (add_join_fields rd rts fn ks descriptors) rt))))) = Inr acc'"
      using assms False JoinTransform by (simp add: dispatch_feature_def)
    obtain ks where ks: "keys f = Some ks"
      using run by (cases "keys f") simp_all
    have all: "list_all (\<lambda>key. key \<in> set (field_names src)) ks"
      using run ks by (simp split: if_splits)
    then have sub: "set ks \<subseteq> set (field_names src)"
      by (auto simp: list_all_iff)
    obtain rd where rd: "map_of dbn tn = Some rd"
      using run ks all by (cases "map_of dbn tn") simp_all
    obtain rts where rts: "timestamp_field rd = Some rts"
      using run ks all rd by (cases "timestamp_field rd") simp_all
    have "acc' = (tmp, wam,
               AList.update (tn, ks)
                 (add_join_fields rd rts fn ks
                    (case map_of rt (tn, ks) of None \<Rightarrow> [] | Some d \<Rightarrow> d)) rt)"
      using run ks all rd rts by (simp add: Let_def)
    then show ?thesis using False JoinTransform ks sub rd rts by (rule join [rotated -1])
  next
    case (OtherTransform kind)
    then show ?thesis using assms False by (simp add: dispatch_feature_def)
  qed
qed

lemma foldl_update_keys:
  "fst ` set (foldl (\<lambda>d key. AList.update key (g key) d) d0 ks) = fst ` set d0 \<union> set ks"
  by (induction ks arbitrary: d0) (auto simp: AList.dom_update)

lemma foldl_update_distinct:
  "distinct (map fst d0)
   \<Longrightarrow> distinct (map fst (foldl (\<lambda>d key. AList.update key (g key) d) d0 ks))"
  by (induction ks arbitrary: d0) (auto simp: AList.distinct_update)

lemma add_join_fields_keys:
  "fst ` set (add_join_fields rd rts vf ks d0)
     = fst ` set d0 \<union> set ks \<union> {rts, EVENT_TIME_ATTRIBUTE_NAME, vf}"
  by (auto simp: add_join_fields_def AList.dom_update foldl_update_keys)

lemma add_join_fields_distinct:
  "distinct (map fst d0) \<Longrightarrow> distinct (map fst (add_join_fields rd rts vf ks d0))"
  by (simp add: add_join_fields_def AList.distinct_update foldl_update_distinct)

lemma field_names_evaluate_expression_transform:
  "n \<notin> set (field_names tmp)
   \<Longrightarrow> field_names (evaluate_expression_transform e tmp t n ty) = field_names tmp @ [n]"
  by (simp add: evaluate_expression_transform_def)


lemma dispatch_features_Cons_Inr:
  "dispatch_features e fv src dbn (f # fs) acc = Inr acc' \<longleftrightarrow>
     (\<exists>acc1. dispatch_feature e fv src dbn f acc = Inr acc1
             \<and> dispatch_features e fv src dbn fs acc1 = Inr acc')"
  by (auto split: sum.splits)

lemma dispatch_features_window_aggs:
  assumes "dispatch_features e fv src dbn fs (tmp, wam, rt) = Inr (tmp', wam', rt')"
  shows "(case map_of wam' d of None \<Rightarrow> [] | Some aggs \<Rightarrow> aggs) =
           (case map_of wam d of None \<Rightarrow> [] | Some aggs \<Rightarrow> aggs)
           @ map from_feature
               (filter (\<lambda>f. is_over_window (transform f)
                             \<and> from_over_window_transform (transform f) = d)
                  (pending_features (field_names tmp) fs))"
  using assms
proof (induction fs arbitrary: tmp wam rt)
  case Nil
  then show ?case by simp
next
  case (Cons f fs)
  from Cons.prems obtain acc1 where
    step: "dispatch_feature e fv src dbn f (tmp, wam, rt) = Inr acc1"
    and rest: "dispatch_features e fv src dbn fs acc1 = Inr (tmp', wam', rt')"
    unfolding dispatch_features_Cons_Inr by blast
  from step show ?case
  proof (cases rule: dispatch_feature_cases)
    case skipped
    then show ?thesis using Cons.IH [of tmp wam rt] rest by simp
  next
    case (expression ex)
    then show ?thesis
      using Cons.IH [of "evaluate_expression_transform e tmp (transform f) (name f) (dtype f)"
          wam rt] rest
      by (simp add: field_names_evaluate_expression_transform)
  next
    case (over_window ae af pk ok)
    then show ?thesis
      using Cons.IH [OF rest [unfolded over_window(4)]]
      by (auto simp: update_conv' split: option.splits)
  next
    case (join tn fn ks rd rts)
    then show ?thesis using Cons.IH [OF rest [unfolded join(7)]] by simp
  qed
qed

lemma dispatch_features_window_keys:
  assumes "dispatch_features e fv src dbn fs (tmp, wam, rt) = Inr (tmp', wam', rt')"
  shows "fst ` set wam' =
           fst ` set wam
           \<union> (\<lambda>f. from_over_window_transform (transform f))
               ` {f \<in> set (pending_features (field_names tmp) fs). is_over_window (transform f)}"
    and "distinct (map fst wam) \<Longrightarrow> distinct (map fst wam')"
  using assms
proof (induction fs arbitrary: tmp wam rt)
  case Nil
  {
    case 1 then show ?case by simp
  next
    case 2 then show ?case by simp
  }
next
  case (Cons f fs)
  {
    case 1
    from 1 obtain acc1 where
      step: "dispatch_feature e fv src dbn f (tmp, wam, rt) = Inr acc1"
      and rest: "dispatch_features e fv src dbn fs acc1 = Inr (tmp', wam', rt')"
      unfolding dispatch_features_Cons_Inr by blast
    from step show ?case
    proof (cases rule: dispatch_feature_cases)
      case skipped
      then show ?thesis using Cons.IH(1) [of tmp wam rt] rest by simp
    next
      case (expression ex)
      then show ?thesis
        using Cons.IH(1) [OF rest [unfolded expression(3)]]
        by (auto simp: field_names_evaluate_expression_transform)
    next
      case (over_window ae af pk ok)
      let ?P = "pending_features (field_names tmp) fs"
      let ?d = "from_over_window_transform (transform f)"
      have "{g \<in> set (pending_features (field_names tmp) (f # fs)).
              is_over_window (transform g)}
            = insert f {g \<in> set ?P. is_over_window (transform g)}"
        using over_window(1,2) by auto
      moreover have "fst ` set wam' =
           insert ?d (fst ` set wam)
           \<union> (\<lambda>f. from_over_window_transform (transform f))
               ` {g \<in> set ?P. is_over_window (transform g)}"
        using Cons.IH(1) [OF rest [unfolded over_window(4)]] by (simp add: dom_update)
      ultimately show ?thesis by (simp only: image_insert) blast
    next
      case (join tn fn ks rd rts)
      then show ?thesis using Cons.IH(1) [OF rest [unfolded join(7)]] by auto
    qed
  next
    case 2
    from 2 obtain acc1 where
      step: "dispatch_feature e fv src dbn f (tmp, wam, rt) = Inr acc1"
      and rest: "dispatch_features e fv src dbn fs acc1 = Inr (tmp', wam', rt')"
      unfolding dispatch_features_Cons_Inr by blast
    from step show ?case
    proof (cases rule: dispatch_feature_cases)
      case skipped
      then show ?thesis using Cons.IH(2) [of wam tmp rt] rest 2 by simp
    next
      case (expression ex)
      then show ?thesis using Cons.IH(2) [OF _ rest [unfolded expression(3)]] 2 by simp
    next
      case (over_window ae af pk ok)
      then show ?thesis
        using Cons.IH(2) [OF _ rest [unfolded over_window(4)]] 2
        by (simp add: distinct_update)
    next
      case (join tn fn ks rd rts)
      then show ?thesis using Cons.IH(2) [OF _ rest [unfolded join(7)]] 2 by simp
    qed
  }
qed

lemma dispatch_features_right_keys:
  assumes "dispatch_features e fv src dbn fs (tmp, wam, rt) = Inr (tmp', wam', rt')"
  shows "fst ` set rt' =
           fst ` set rt
           \<union> {(table_name (transform f), ks) | f ks.
                f \<in> set (pending_features (field_names tmp) fs)
                \<and> is_join (transform f) \<and> keys f = Some ks}"
  using assms
proof (induction fs arbitrary: tmp wam rt)
  case Nil
  then show ?case by simp
next
  case (Cons f fs)
  from Cons.prems obtain acc1 where
    step: "dispatch_feature e fv src dbn f (tmp, wam, rt) = Inr acc1"
    and rest: "dispatch_features e fv src dbn fs acc1 = Inr (tmp', wam', rt')"
    unfolding dispatch_features_Cons_Inr by blast
  from step show ?case
  proof (cases rule: dispatch_feature_cases)
    case skipped
    then show ?thesis using Cons.IH [of tmp wam rt] rest by simp
  next
    case (expression ex)
    then show ?thesis
      using Cons.IH [OF rest [unfolded expression(3)]]
      by (auto simp: field_names_evaluate_expression_transform)
  next
    case (over_window ae af pk ok)
    then show ?thesis using Cons.IH [OF rest [unfolded over_window(4)]] by auto
  next
    case (join tn fn ks rd rts)
    let ?P = "pending_features (field_names tmp) fs"
    have pend: "pending_features (field_names tmp) (f # fs) = f # ?P"
      using join(1,2) by simp
    have f: "table_name (transform f) = tn" "is_join (transform f)"
      using join(2) by simp_all
    have "{(table_name (transform g), k) | g k.
             g \<in> set (pending_features (field_names tmp) (f # fs))
             \<and> is_join (transform g) \<and> keys g = Some k}
          = insert (tn, ks)
              {(table_name (transform g), k) | g k.
                 g \<in> set ?P \<and> is_join (transform g) \<and> keys g = Some k}"
      unfolding pend using f join(3) by auto
    moreover have "fst ` set rt' =
           insert (tn, ks) (fst ` set rt)
           \<union> {(table_name (transform g), k) | g k.
                 g \<in> set ?P \<and> is_join (transform g) \<and> keys g = Some k}"
      using Cons.IH [OF rest [unfolded join(7)]] by (simp add: dom_update)
    ultimately show ?thesis by (simp only:) blast
  qed
qed

lemma dispatch_features_right_distinct:
  assumes "dispatch_features e fv src dbn fs (tmp, wam, rt) = Inr (tmp', wam', rt')"
    and "distinct (map fst rt)"
  shows "distinct (map fst rt')"
  using assms
proof (induction fs arbitrary: tmp wam rt)
  case Nil
  then show ?case by simp
next
  case (Cons f fs)
  from Cons.prems obtain acc1 where
    step: "dispatch_feature e fv src dbn f (tmp, wam, rt) = Inr acc1"
    and rest: "dispatch_features e fv src dbn fs acc1 = Inr (tmp', wam', rt')"
    unfolding dispatch_features_Cons_Inr by blast
  from step show ?case
  proof (cases rule: dispatch_feature_cases)
    case skipped
    then show ?thesis using Cons.IH [of tmp wam rt] rest Cons.prems(2) by simp
  next
    case (expression ex)
    then show ?thesis using Cons.IH [OF rest [unfolded expression(3)]] Cons.prems(2) by simp
  next
    case (over_window ae af pk ok)
    then show ?thesis using Cons.IH [OF rest [unfolded over_window(4)]] Cons.prems(2) by simp
  next
    case (join tn fn ks rd rts)
    then show ?thesis
      using Cons.IH [OF rest [unfolded join(7)]] Cons.prems(2) by (simp add: distinct_update)
  qed
qed

lemma dispatch_features_fields_distinct:
  assumes "dispatch_features e fv src dbn fs (tmp, wam, rt) = Inr (tmp', wam', rt')"
    and "\<forall>b d. map_of rt b = Some d \<longrightarrow> distinct (map fst d)"
  shows "\<forall>b d. map_of rt' b = Some d \<longrightarrow> distinct (map fst d)"
  using assms
proof (induction fs arbitrary: tmp wam rt)
  case Nil
  then show ?case by simp
next
  case (Cons f fs)
  from Cons.prems obtain acc1 where
    step: "dispatch_feature e fv src dbn f (tmp, wam, rt) = Inr acc1"
    and rest: "dispatch_features e fv src dbn fs acc1 = Inr (tmp', wam', rt')"
    unfolding dispatch_features_Cons_Inr by blast
  from step show ?case
  proof (cases rule: dispatch_feature_cases)
    case skipped
    then show ?thesis using Cons.IH [of tmp wam rt] rest Cons.prems(2) by simp
  next
    case (expression ex)
    then show ?thesis using Cons.IH [OF rest [unfolded expression(3)]] Cons.prems(2) by simp
  next
    case (over_window ae af pk ok)
    then show ?thesis using Cons.IH [OF rest [unfolded over_window(4)]] Cons.prems(2) by simp
  next
    case (join tn fn ks rd rts)
    let ?old = "case map_of rt (tn, ks) of None \<Rightarrow> [] | Some d \<Rightarrow> d"
    have "distinct (map fst ?old)"
      using Cons.prems(2) by (cases "map_of rt (tn, ks)") auto
    then have "distinct (map fst (add_join_fields rd rts fn ks ?old))"
      by (rule add_join_fields_distinct)
    then have "\<forall>b d. map_of (AList.update (tn, ks) (add_join_fields rd rts fn ks ?old) rt) b
                  = Some d \<longrightarrow> distinct (map fst d)"
      using Cons.prems(2) by (auto simp: update_conv')
    then show ?thesis by (rule Cons.IH [OF rest [unfolded join(7)]])
  qed
qed

lemma dispatch_features_right_fields:
  assumes "dispatch_features e fv src dbn fs (tmp, wam, rt) = Inr (tmp', wam', rt')"
  shows "fst ` set (case map_of rt' (n, k) of None \<Rightarrow> [] | Some d \<Rightarrow> d) =
           fst ` set (case map_of rt (n, k) of None \<Rightarrow> [] | Some d \<Rightarrow> d)
           \<union> \<Union> (join_fields dbn `
                 {f \<in> set (pending_features (field_names tmp) fs).
                    is_join (transform f) \<and> table_name (transform f) = n
                    \<and> keys f = Some k})"
  using assms
proof (induction fs arbitrary: tmp wam rt)
  case Nil
  then show ?case by simp
next
  case (Cons f fs)
  from Cons.prems obtain acc1 where
    step: "dispatch_feature e fv src dbn f (tmp, wam, rt) = Inr acc1"
    and rest: "dispatch_features e fv src dbn fs acc1 = Inr (tmp', wam', rt')"
    unfolding dispatch_features_Cons_Inr by blast
  from step show ?case
  proof (cases rule: dispatch_feature_cases)
    case skipped
    then show ?thesis using Cons.IH [of tmp wam rt] rest by simp
  next
    case (expression ex)
    then show ?thesis
      using Cons.IH [OF rest [unfolded expression(3)]]
      by (auto simp: field_names_evaluate_expression_transform)
  next
    case (over_window ae af pk ok)
    then show ?thesis using Cons.IH [OF rest [unfolded over_window(4)]] by auto
  next
    case (join tn fn ks rd rts)
    let ?P = "pending_features (field_names tmp) fs"
    let ?old = "case map_of rt (tn, ks) of None \<Rightarrow> [] | Some d \<Rightarrow> d"
    let ?new = "add_join_fields rd rts fn ks ?old"
    let ?S = "\<lambda>fs. {g \<in> set fs. is_join (transform g) \<and> table_name (transform g) = n
                        \<and> keys g = Some k}"
    have jf: "join_fields dbn f = set ks \<union> {rts, EVENT_TIME_ATTRIBUTE_NAME, fn}"
      using join by (auto simp: join_fields_def)
    have IH: "fst ` set (case map_of rt' (n, k) of None \<Rightarrow> [] | Some d \<Rightarrow> d) =
           fst ` set (case map_of (AList.update (tn, ks) ?new rt) (n, k) of
                        None \<Rightarrow> [] | Some d \<Rightarrow> d)
           \<union> \<Union> (join_fields dbn ` ?S ?P)"
      using Cons.IH [OF rest [unfolded join(7)]] by simp
    have pend: "pending_features (field_names tmp) (f # fs) = f # ?P"
      using join(1,2) by simp
    show ?thesis
    proof (cases "(n, k) = (tn, ks)")
      case True
      have "?S (f # ?P) = insert f (?S ?P)" using True join(2,3) by auto
      moreover have "fst ` set (case map_of (AList.update (tn, ks) ?new rt) (n, k) of
                        None \<Rightarrow> [] | Some d \<Rightarrow> d)
              = fst ` set ?old \<union> join_fields dbn f"
        using True by (simp add: update_conv' add_join_fields_keys jf Un_assoc)
      ultimately show ?thesis using IH True unfolding pend by (simp add: Un_assoc)
    next
      case False
      have "?S (f # ?P) = ?S ?P" using False join(2,3) by auto
      moreover have "map_of (AList.update (tn, ks) ?new rt) (n, k) = map_of rt (n, k)"
        using False by (auto simp: update_conv')
      ultimately show ?thesis using IH unfolding pend by simp
    qed
  qed
qed

lemma over_window_calls_append [simp]:
  "over_window_calls (xs @ ys) = over_window_calls xs @ over_window_calls ys"
  by (simp add: over_window_calls_def)

lemma temporal_join_calls_append [simp]:
  "temporal_join_calls (xs @ ys) = temporal_join_calls xs @ temporal_join_calls ys"
  by (simp add: temporal_join_calls_def)

lemma evaluate_over_windows_calls:
  "evaluate_over_windows e wam tmp st = (t, st')
   \<Longrightarrow> \<exists>cs. calls st' = calls st @ cs \<and> over_window_calls cs = wam
            \<and> temporal_join_calls cs = []"
proof (induction e wam tmp st rule: evaluate_over_windows.induct)
  case (1 e tmp st)
  then show ?case by (simp add: over_window_calls_def temporal_join_calls_def)
next
  case (2 e d aggs rest tmp st)
  let ?c = "EvaluateOverWindowTransform tmp d aggs"
  let ?st1 = "st\<lparr>calls := calls st @ [?c]\<rparr>"
  from "2.prems" have run: "evaluate_over_windows e rest (returns e ?c) ?st1 = (t, st')"
    by (simp add: invoke_def)
  from "2.IH" [OF _ run] obtain cs where
    cs: "calls st' = calls ?st1 @ cs" "over_window_calls cs = rest"
      "temporal_join_calls cs = []"
    by (auto simp: invoke_def)
  have "calls st' = calls st @ (?c # cs)" using cs(1) by simp
  moreover have "over_window_calls (?c # cs) = (d, aggs) # rest"
    using cs(2) by (simp add: over_window_calls_def)
  moreover have "temporal_join_calls (?c # cs) = []"
    using cs(3) by (simp add: temporal_join_calls_def)
  ultimately show ?case by blast
qed

text \<open>What one temporal join is called with, for one batch of \<^verbatim>\<open>right_tables\<close>.\<close>

lemma join_right_tables_calls:
  "join_right_tables e tbn rt tmp st = (Inr t, st')
   \<Longrightarrow> \<exists>cs. calls st' = calls st @ cs \<and> over_window_calls cs = []
            \<and> list_all2
                 (\<lambda>batch c. snd c = (snd (fst batch), snd batch)
                     \<and> (\<exists>t0. map_of tbn (fst (fst batch)) = Some t0
                              \<and> fst c = Select (map Col (map fst (snd batch))) t0))
                 rt (temporal_join_calls cs)"
proof (induction e tbn rt tmp st rule: join_right_tables.induct)
  case (1 e tbn tmp st)
  then show ?case by (simp add: over_window_calls_def temporal_join_calls_def)
next
  case (2 e tbn n ks descs rest tmp st)
  from "2.prems" obtain t0 where t0: "map_of tbn n = Some t0"
    by (cases "map_of tbn n") auto
  let ?right = "Select (map Col (map fst descs)) t0"
  let ?c = "TemporalJoin tmp ?right ks descs"
  let ?st1 = "st\<lparr>calls := calls st @ [?c]\<rparr>"
  from "2.prems" t0 have run: "join_right_tables e tbn rest (returns e ?c) ?st1 = (Inr t, st')"
    by (simp add: invoke_def Let_def)
  from "2.IH" [OF t0 refl _ run] obtain cs where
    cs: "calls st' = calls ?st1 @ cs" "over_window_calls cs = []"
      "list_all2
         (\<lambda>batch c. snd c = (snd (fst batch), snd batch)
             \<and> (\<exists>t0. map_of tbn (fst (fst batch)) = Some t0
                      \<and> fst c = Select (map Col (map fst (snd batch))) t0))
         rest (temporal_join_calls cs)"
    by (auto simp: invoke_def)
  have "calls st' = calls st @ (?c # cs)" using cs(1) by simp
  moreover have "over_window_calls (?c # cs) = []"
    using cs(2) by (simp add: over_window_calls_def)
  moreover have "list_all2
         (\<lambda>batch c. snd c = (snd (fst batch), snd batch)
             \<and> (\<exists>t0. map_of tbn (fst (fst batch)) = Some t0
                      \<and> fst c = Select (map Col (map fst (snd batch))) t0))
         (((n, ks), descs) # rest) (temporal_join_calls (?c # cs))"
    using cs(3) t0 by (simp add: temporal_join_calls_def)
  ultimately show ?case by blast
qed

lemma assemble_derived_table_calls:
  assumes "assemble_derived_table e fv src tbn dbn deps st = (Inr t, st')"
  obtains tmp wam rt tmp3 where
    "dispatch_features e fv src dbn deps (src, [], []) = Inr (tmp, wam, rt)"
    "over_window_calls (calls_since st st') = wam"
    "list_all2
       (\<lambda>batch c. snd c = (snd (fst batch), snd batch)
           \<and> (\<exists>t0. map_of tbn (fst (fst batch)) = Some t0
                    \<and> fst c = Select (map Col (map fst (snd batch))) t0))
       rt (temporal_join_calls (calls_since st st'))"
    "t = Select (map Col (get_output_fields e fv (field_names src))) tmp3"
proof -
  from assms obtain tmp wam rt where
    d: "dispatch_features e fv src dbn deps (src, [], []) = Inr (tmp, wam, rt)"
    by (cases "dispatch_features e fv src dbn deps (src, [], [])")
       (auto simp: assemble_derived_table_def)
  obtain tmp2 st1 where ow: "evaluate_over_windows e wam tmp st = (tmp2, st1)"
    by (cases "evaluate_over_windows e wam tmp st")
  obtain r st2 where j: "join_right_tables e tbn rt tmp2 st1 = (r, st2)"
    by (cases "join_right_tables e tbn rt tmp2 st1")
  from assms d ow j obtain tmp3 where
    r: "r = Inr tmp3" "st' = st2"
      "t = Select (map Col (get_output_fields e fv (field_names src))) tmp3"
    by (cases r) (auto simp: assemble_derived_table_def)
  from evaluate_over_windows_calls [OF ow] obtain cs1 where
    cs1: "calls st1 = calls st @ cs1" "over_window_calls cs1 = wam"
      "temporal_join_calls cs1 = []" by blast
  from join_right_tables_calls [OF j [unfolded r(1)]] obtain cs2 where
    cs2: "calls st2 = calls st1 @ cs2" "over_window_calls cs2 = []"
      "list_all2
         (\<lambda>batch c. snd c = (snd (fst batch), snd batch)
             \<and> (\<exists>t0. map_of tbn (fst (fst batch)) = Some t0
                      \<and> fst c = Select (map Col (map fst (snd batch))) t0))
         rt (temporal_join_calls cs2)" by blast
  have since: "calls_since st st' = cs1 @ cs2"
    using cs1(1) cs2(1) r(2) by (simp add: calls_since_def)
  show ?thesis
    using that [OF d _ _ r(3)] cs1 cs2 unfolding since by simp
qed

lemma derived_view_assembles:
  assumes "rec st (Descriptor (source fv)) = Some (Inr src, st1)"
    and "get_dependent_features fv = Inr deps"
    and "get_join_tables rec e (join_table_names (features fv)) [] [] st1
           = Some (Inr (tbn, dbn), st2)"
  shows "get_table_from_derived_feature_view rec e st fv
           = Some (assemble_derived_table e fv src tbn dbn deps st2)"
proof -
  from assms(2) have "get_resolved_features fv = Inr (features fv)"
    by (auto simp: get_dependent_features_def get_resolved_features_def split: if_splits)
  then show ?thesis using assms
    by (simp add: get_table_from_derived_feature_view_def bnd_def)
qed

lemma dispatch_features_append:
  "dispatch_features e fv src dbn (xs @ ys) acc =
     (case dispatch_features e fv src dbn xs acc of
        Inl err \<Rightarrow> Inl err
      | Inr acc' \<Rightarrow> dispatch_features e fv src dbn ys acc')"
  by (induction xs arbitrary: acc) (auto split: sum.splits)

lemma dispatch_feature_raises:
  assumes "dispatch_features e fv src dbn earlier (src, [], []) = Inr acc"
    and "dispatch_feature e fv src dbn feature acc = Inl err"
  shows "assemble_derived_table e fv src tbn dbn (earlier @ feature # later) st = (Inl err, st)"
  using assms by (simp add: assemble_derived_table_def dispatch_features_append)

lemma derived_view_built:
  assumes source: "rec st (Descriptor (source fv)) = Some (Inr src, st1)"
    and deps: "get_dependent_features fv = Inr deps"
    and joins: "get_join_tables rec e (join_table_names (features fv)) [] [] st1
                  = Some (Inr (tbn, dbn), st2)"
    and built: "get_table_from_derived_feature_view rec e st fv = Some (Inr t, st')"
  shows "assemble_derived_table e fv src tbn dbn deps st2 = (Inr t, st')"
  using derived_view_assembles [OF source deps joins] built by simp

text \<open>The view \<open>profile_view\<close> compiled in a new session, step by step.\<close>

lemma profile_view_source:
  "get_table (Suc 0) example_env new_session (Descriptor (source profile_view))
     = Some (Inr purchases_table, purchases_session)"
  by (simp add: example_defs profile_view_def)

lemma profile_view_dependent_features:
  "get_dependent_features profile_view = Inr [total_spend, purchase_count, age, city]"
  by (simp add: example_defs profile_view_def total_spend_def purchase_count_def age_def
      city_def)

lemma profile_view_join_tables:
  "get_join_tables (get_table (Suc 0) example_env) example_env
     (join_table_names (features profile_view)) [] [] purchases_session
   = Some (Inr ([(''users'', users_table)], [(''users'', users)]), users_session)"
  by (simp add: example_defs profile_view_def total_spend_def purchase_count_def age_def
      city_def)

lemma profile_view_built:
  "get_table_from_derived_feature_view (get_table (Suc 0) example_env) example_env
     new_session profile_view = Some (Inr profile_table, profile_session)"
  by (simp add: example_defs profile_view_def total_spend_def purchase_count_def age_def
      city_def profile_table_def profile_session_def profile_window_def
      profile_join_fields_def profile_right_table_def add_join_fields_def
      from_over_window_transform_def from_feature_def EVENT_TIME_ATTRIBUTE_NAME_def)

section \<open>The keys of a join feature\<close>

text \<open>
  C4 (as amended). When the dispatch loop of a derived view reaches a join feature that is
  not yet a field of the table, the compilation of the view fails with the exception of
  line 257 if the feature has no keys (\<^verbatim>\<open>keys is None\<close>), and with the exception of
  line 264 if one of its keys is not a field of the source table. Otherwise the check of
  the keys passes: the iteration raises neither of the two. An empty sequence of keys is
  not \<^verbatim>\<open>None\<close> and has no key missing from the source, so it passes.
\<close>

theorem join_keys_checked:
  assumes source: "rec st (Descriptor (source feature_view)) = Some (Inr source_table, st1)"
    and deps: "get_dependent_features feature_view = Inr (earlier @ feature # later)"
    and joins: "get_join_tables rec e (join_table_names (features feature_view)) [] [] st1
                  = Some (Inr (table_by_names, descriptors_by_names), st2)"
    and reached: "dispatch_features e feature_view source_table descriptors_by_names earlier
                    (source_table, [], []) = Inr (tmp_table, window_agg_map, right_tables)"
    and pending: "name feature \<notin> set (field_names tmp_table)"
    and join: "is_join (transform feature)"
  shows "(keys feature = None \<longrightarrow>
            get_table_from_derived_feature_view rec e st feature_view
              = Some (Inl JoinWithoutKey, st2))
       \<and> (\<forall>ks. keys feature = Some ks \<and> \<not> set ks \<subseteq> set (field_names source_table) \<longrightarrow>
            get_table_from_derived_feature_view rec e st feature_view
              = Some (Inl SourceLacksJoinKeys, st2))
       \<and> (\<forall>ks. keys feature = Some ks \<and> set ks \<subseteq> set (field_names source_table) \<longrightarrow>
            dispatch_feature e feature_view source_table descriptors_by_names feature
              (tmp_table, window_agg_map, right_tables)
            \<notin> {Inl JoinWithoutKey, Inl SourceLacksJoinKeys})"
proof -
  obtain tn fn where t: "transform feature = JoinTransform tn fn"
    using join by (cases "transform feature") simp_all
  let ?step = "dispatch_feature e feature_view source_table descriptors_by_names feature
                 (tmp_table, window_agg_map, right_tables)"
  note whole = derived_view_assembles [OF source deps joins]
  have none: "?step = Inl JoinWithoutKey" if "keys feature = None"
    using that t pending by (simp add: dispatch_feature_def)
  have missing: "?step = Inl SourceLacksJoinKeys"
    if "keys feature = Some ks" "\<not> set ks \<subseteq> set (field_names source_table)" for ks
    using that t pending by (auto simp: dispatch_feature_def list_all_iff)
  have passes: "?step \<notin> {Inl JoinWithoutKey, Inl SourceLacksJoinKeys}"
    if "keys feature = Some ks" "set ks \<subseteq> set (field_names source_table)" for ks
    using that t pending
    by (auto simp: dispatch_feature_def list_all_iff Let_def split: option.splits)
  have raises: "get_table_from_derived_feature_view rec e st feature_view
                  = Some (Inl err, st2)" if "?step = Inl err" for err
    using whole dispatch_feature_raises [OF reached that, of table_by_names later st2]
    by simp
  show ?thesis
  proof (intro conjI allI impI)
    assume "keys feature = None"
    then show "get_table_from_derived_feature_view rec e st feature_view
                 = Some (Inl JoinWithoutKey, st2)"
      by (intro raises none)
  next
    fix ks
    assume "keys feature = Some ks \<and> \<not> set ks \<subseteq> set (field_names source_table)"
    then show "get_table_from_derived_feature_view rec e st feature_view
                 = Some (Inl SourceLacksJoinKeys, st2)"
      by (intro raises missing [of ks]) simp_all
  next
    fix ks
    assume "keys feature = Some ks \<and> set ks \<subseteq> set (field_names source_table)"
    then show "?step \<notin> {Inl JoinWithoutKey, Inl SourceLacksJoinKeys}"
      by (intro passes [of ks]) simp_all
  qed
qed

theorem join_keys_checked_witness:
  "get_table (Suc 0) example_env new_session (Descriptor (source unkeyed_view))
     = Some (Inr purchases_table, purchases_session)
   \<and> get_dependent_features unkeyed_view = Inr ([] @ unkeyed_age # [])
   \<and> get_join_tables (get_table (Suc 0) example_env) example_env
         (join_table_names (features unkeyed_view)) [] [] purchases_session
       = Some (Inr ([(''users'', users_table)], [(''users'', users)]), users_session)
   \<and> dispatch_features example_env unkeyed_view purchases_table [(''users'', users)] []
         (purchases_table, [], []) = Inr (purchases_table, [], [])
   \<and> name unkeyed_age \<notin> set (field_names purchases_table)
   \<and> is_join (transform unkeyed_age)
   \<and> keys unkeyed_age = None
   \<and> get_table_from_derived_feature_view (get_table (Suc 0) example_env) example_env
         new_session unkeyed_view = Some (Inl JoinWithoutKey, users_session)"
proof -
  have source: "get_table (Suc 0) example_env new_session (Descriptor (source unkeyed_view))
     = Some (Inr purchases_table, purchases_session)"
    by (simp add: example_defs unkeyed_view_def)
  have deps: "get_dependent_features unkeyed_view = Inr ([] @ unkeyed_age # [])"
    by (simp add: example_defs unkeyed_view_def unkeyed_age_def)
  have joins: "get_join_tables (get_table (Suc 0) example_env) example_env
         (join_table_names (features unkeyed_view)) [] [] purchases_session
       = Some (Inr ([(''users'', users_table)], [(''users'', users)]), users_session)"
    by (simp add: example_defs unkeyed_view_def unkeyed_age_def)
  have reached: "dispatch_features example_env unkeyed_view purchases_table
         [(''users'', users)] [] (purchases_table, [], []) = Inr (purchases_table, [], [])"
    by simp
  have pending: "name unkeyed_age \<notin> set (field_names purchases_table)"
    by (simp add: unkeyed_age_def purchases_table_def EVENT_TIME_ATTRIBUTE_NAME_def)
  have join: "is_join (transform unkeyed_age)" by (simp add: unkeyed_age_def)
  have none: "keys unkeyed_age = None" by (simp add: unkeyed_age_def)
  from join_keys_checked [OF source deps joins reached pending join] none
  have "get_table_from_derived_feature_view (get_table (Suc 0) example_env) example_env
         new_session unkeyed_view = Some (Inl JoinWithoutKey, users_session)"
    by blast
  with source deps joins reached pending join none show ?thesis by blast
qed

text \<open>
  C4 as stated does not hold for an empty sequence of keys: the view \<open>keyless_view\<close>,
  whose join feature declares \<^verbatim>\<open>keys = []\<close>, compiles, with a temporal join on no key.
\<close>

theorem empty_join_keys_counterexample:
  "is_join (transform keyless_age) \<and> keys keyless_age = Some []
   \<and> get_table (Suc (Suc 0)) example_env new_session (Descriptor keyless_view)
       = Some (Inr keyless_table, keyless_session)"
  by (simp add: example_defs keyless_view_def keyless_age_def keyless_table_def
      keyless_session_def keyless_join_fields_def add_join_fields_def
      EVENT_TIME_ATTRIBUTE_NAME_def)

section \<open>One temporal join per table and keys\<close>

text \<open>
  C5. In a derived view that compiles, take the join features that the dispatch loop
  classifies. The temporal joins made for the view correspond one to one, in order, to the
  distinct pairs of table name and keys of these features. The join of a pair is called
  with these keys and with the joined table selected down to the fields of its field
  descriptors; these fields are distinct (each is selected once) and are exactly the keys,
  the timestamp field of the joined table, the event-time column and the requested fields
  of the features of the pair.
\<close>

theorem temporal_join_batching:
  assumes source: "rec st (Descriptor (source feature_view)) = Some (Inr source_table, st1)"
    and deps: "get_dependent_features feature_view = Inr dependent_features"
    and joins: "get_join_tables rec e (join_table_names (features feature_view)) [] [] st1
                  = Some (Inr (table_by_names, descriptors_by_names), st2)"
    and built: "get_table_from_derived_feature_view rec e st feature_view
                  = Some (Inr t, st')"
  shows "let pending =
               filter (\<lambda>f. is_join (transform f))
                 (pending_features (field_names source_table) dependent_features);
             made = temporal_join_calls (calls_since st2 st')
         in \<exists>batches.
              distinct batches
            \<and> set batches =
                {(table_name (transform f), ks) | f ks. f \<in> set pending \<and> keys f = Some ks}
            \<and> list_all2
                (\<lambda>(n, ks) (right_table, join_keys, descriptors).
                    join_keys = ks
                  \<and> (\<exists>t0. map_of table_by_names n = Some t0
                          \<and> right_table = Select (map Col (map fst descriptors)) t0)
                  \<and> field_names right_table = map fst descriptors
                  \<and> distinct (map fst descriptors)
                  \<and> set (map fst descriptors) =
                      \<Union> (join_fields descriptors_by_names `
                            {f \<in> set pending.
                               table_name (transform f) = n \<and> keys f = Some ks}))
                batches made"
proof -
  let ?P = "pending_features (field_names source_table) dependent_features"
  let ?J = "filter (\<lambda>f. is_join (transform f)) ?P"
  let ?made = "temporal_join_calls (calls_since st2 st')"
  from derived_view_built [OF source deps joins built]
  obtain tmp wam rt where
    d: "dispatch_features e feature_view source_table descriptors_by_names
          dependent_features (source_table, [], []) = Inr (tmp, wam, rt)"
    and made: "list_all2
       (\<lambda>batch c. snd c = (snd (fst batch), snd batch)
           \<and> (\<exists>t0. map_of table_by_names (fst (fst batch)) = Some t0
                    \<and> fst c = Select (map Col (map fst (snd batch))) t0))
       rt ?made"
    by (rule assemble_derived_table_calls)
  have dist: "distinct (map fst rt)"
    using dispatch_features_right_distinct [OF d] by simp
  have keys: "set (map fst rt) =
      {(table_name (transform f), ks) | f ks. f \<in> set ?J \<and> keys f = Some ks}"
    using dispatch_features_right_keys [OF d] by auto
  have fdist: "distinct (map fst descs)" if "(b, descs) \<in> set rt" for b descs
  proof -
    have "map_of rt b = Some descs" using that dist by simp
    moreover have "\<forall>b d. map_of rt b = Some d \<longrightarrow> distinct (map fst d)"
      by (rule dispatch_features_fields_distinct [OF d]) simp
    ultimately show ?thesis by blast
  qed
  have fields: "set (map fst descs) =
      \<Union> (join_fields descriptors_by_names `
            {f \<in> set ?J. table_name (transform f) = n \<and> keys f = Some ks})"
    if "((n, ks), descs) \<in> set rt" for n ks descs
  proof -
    have "map_of rt (n, ks) = Some descs" using that dist by simp
    moreover have "{f \<in> set ?J. table_name (transform f) = n \<and> keys f = Some ks}
        = {f \<in> set ?P. is_join (transform f) \<and> table_name (transform f) = n
             \<and> keys f = Some ks}" by auto
    ultimately show ?thesis
      using dispatch_features_right_fields [OF d, of n ks] by simp
  qed
  have "list_all2
          (\<lambda>batch c.
              (case fst batch of (n, ks) \<Rightarrow> \<lambda>(right_table, join_keys, descriptors).
                  join_keys = ks
                \<and> (\<exists>t0. map_of table_by_names n = Some t0
                        \<and> right_table = Select (map Col (map fst descriptors)) t0)
                \<and> field_names right_table = map fst descriptors
                \<and> distinct (map fst descriptors)
                \<and> set (map fst descriptors) =
                    \<Union> (join_fields descriptors_by_names `
                          {f \<in> set ?J.
                             table_name (transform f) = n \<and> keys f = Some ks})) c)
          rt ?made"
    using made
  proof (rule list.rel_mono_strong)
    fix batch c
    assume b: "batch \<in> set rt"
      and c: "snd c = (snd (fst batch), snd batch)
           \<and> (\<exists>t0. map_of table_by_names (fst (fst batch)) = Some t0
                    \<and> fst c = Select (map Col (map fst (snd batch))) t0)"
    obtain n ks descs where batch: "batch = ((n, ks), descs)"
      by (cases batch) auto
    obtain right_table join_keys descriptors where
      cc: "c = (right_table, join_keys, descriptors)" by (cases c) auto
    from c batch cc have eq: "join_keys = ks" "descriptors = descs" by simp_all
    from c batch cc obtain t0 where
      t0: "map_of table_by_names n = Some t0"
        "right_table = Select (map Col (map fst descs)) t0" by auto
    have "field_names right_table = map fst descs"
      using t0(2) by (simp add: comp_def)
    then show "(case fst batch of (n, ks) \<Rightarrow> \<lambda>(right_table, join_keys, descriptors).
                  join_keys = ks
                \<and> (\<exists>t0. map_of table_by_names n = Some t0
                        \<and> right_table = Select (map Col (map fst descriptors)) t0)
                \<and> field_names right_table = map fst descriptors
                \<and> distinct (map fst descriptors)
                \<and> set (map fst descriptors) =
                    \<Union> (join_fields descriptors_by_names `
                          {f \<in> set ?J.
                             table_name (transform f) = n \<and> keys f = Some ks})) c"
      using batch cc eq t0 fdist [of "(n, ks)" descs] fields [of n ks descs] b
      by simp
  qed
  then have "list_all2
          (\<lambda>(n, ks) (right_table, join_keys, descriptors).
                  join_keys = ks
                \<and> (\<exists>t0. map_of table_by_names n = Some t0
                        \<and> right_table = Select (map Col (map fst descriptors)) t0)
                \<and> field_names right_table = map fst descriptors
                \<and> distinct (map fst descriptors)
                \<and> set (map fst descriptors) =
                    \<Union> (join_fields descriptors_by_names `
                          {f \<in> set ?J.
                             table_name (transform f) = n \<and> keys f = Some ks}))
          (map fst rt) ?made"
    by (simp add: list_all2_map1)
  then show ?thesis unfolding Let_def using dist keys by blast
qed

theorem temporal_join_batching_witness:
  "get_table (Suc 0) example_env new_session (Descriptor (source profile_view))
     = Some (Inr purchases_table, purchases_session)
   \<and> get_dependent_features profile_view = Inr [total_spend, purchase_count, age, city]
   \<and> get_join_tables (get_table (Suc 0) example_env) example_env
         (join_table_names (features profile_view)) [] [] purchases_session
       = Some (Inr ([(''users'', users_table)], [(''users'', users)]), users_session)
   \<and> get_table_from_derived_feature_view (get_table (Suc 0) example_env) example_env
         new_session profile_view = Some (Inr profile_table, profile_session)
   \<and> temporal_join_calls (calls_since users_session profile_session)
       = [(profile_right_table, [''user_id''], profile_join_fields)]
   \<and> field_names profile_right_table
       = [''user_id'', ''ts'', EVENT_TIME_ATTRIBUTE_NAME, ''age'', ''city'']
   \<and> (let pending =
               filter (\<lambda>f. is_join (transform f))
                 (pending_features (field_names purchases_table)
                    [total_spend, purchase_count, age, city]);
           made = temporal_join_calls (calls_since users_session profile_session)
       in \<exists>batches.
              distinct batches
            \<and> set batches =
                {(table_name (transform f), ks) | f ks. f \<in> set pending \<and> keys f = Some ks}
            \<and> list_all2
                (\<lambda>(n, ks) (right_table, join_keys, descriptors).
                    join_keys = ks
                  \<and> (\<exists>t0. map_of [(''users'', users_table)] n = Some t0
                          \<and> right_table = Select (map Col (map fst descriptors)) t0)
                  \<and> field_names right_table = map fst descriptors
                  \<and> distinct (map fst descriptors)
                  \<and> set (map fst descriptors) =
                      \<Union> (join_fields [(''users'', users)] `
                            {f \<in> set pending.
                               table_name (transform f) = n \<and> keys f = Some ks}))
                batches made)"
proof -
  have made: "temporal_join_calls (calls_since users_session profile_session)
       = [(profile_right_table, [''user_id''], profile_join_fields)]"
    by (simp add: calls_since_def users_session_def profile_session_def
        temporal_join_calls_def)
  have names: "field_names profile_right_table
       = [''user_id'', ''ts'', EVENT_TIME_ATTRIBUTE_NAME, ''age'', ''city'']"
    by (simp add: profile_right_table_def)
  show ?thesis
    by (intro conjI profile_view_source profile_view_dependent_features
        profile_view_join_tables profile_view_built made names
        temporal_join_batching [OF profile_view_source profile_view_dependent_features
          profile_view_join_tables profile_view_built])
qed

section \<open>One aggregation call per window\<close>

text \<open>
  C6. In a derived view that compiles, take the over-window features that the dispatch
  loop classifies (the dependent features that are not yet fields of the table when the
  loop reaches them). The over-window aggregation calls made for the view have distinct
  window descriptors, their descriptors are exactly the descriptors of these features, and
  the call of a descriptor is passed the aggregation field descriptors of all the
  features with that descriptor, in their order: \<open>N\<close> features of one window give one
  call with \<open>N\<close> aggregations. The calls counted are those made after the tables the view
  needs have been fetched (state \<open>st2\<close>).
\<close>

theorem over_window_batching:
  assumes source: "rec st (Descriptor (source feature_view)) = Some (Inr source_table, st1)"
    and deps: "get_dependent_features feature_view = Inr dependent_features"
    and joins: "get_join_tables rec e (join_table_names (features feature_view)) [] [] st1
                  = Some (Inr (table_by_names, descriptors_by_names), st2)"
    and built: "get_table_from_derived_feature_view rec e st feature_view
                  = Some (Inr t, st')"
  shows "let pending =
               filter (\<lambda>f. is_over_window (transform f))
                 (pending_features (field_names source_table) dependent_features);
             made = over_window_calls (calls_since st2 st')
         in distinct (map fst made)
          \<and> fst ` set made = (\<lambda>f. from_over_window_transform (transform f)) ` set pending
          \<and> (\<forall>(d, aggs)\<in>set made.
                aggs = map from_feature
                         (filter (\<lambda>f. from_over_window_transform (transform f) = d)
                            pending))"
proof -
  let ?P = "pending_features (field_names source_table) dependent_features"
  from derived_view_built [OF source deps joins built]
  obtain tmp wam rt where
    d: "dispatch_features e feature_view source_table descriptors_by_names
          dependent_features (source_table, [], []) = Inr (tmp, wam, rt)"
    and made: "over_window_calls (calls_since st2 st') = wam"
    by (rule assemble_derived_table_calls)
  have dist: "distinct (map fst wam)"
    using dispatch_features_window_keys(2) [OF d] by simp
  have keys: "fst ` set wam =
      (\<lambda>f. from_over_window_transform (transform f))
        ` set (filter (\<lambda>f. is_over_window (transform f)) ?P)"
    using dispatch_features_window_keys(1) [OF d] by simp
  have aggs: "aggs = map from_feature
                 (filter (\<lambda>f. from_over_window_transform (transform f) = dd)
                    (filter (\<lambda>f. is_over_window (transform f)) ?P))"
    if "(dd, aggs) \<in> set wam" for dd aggs
  proof -
    have "map_of wam dd = Some aggs" using that dist by simp
    then show ?thesis
      using dispatch_features_window_aggs [OF d, of dd] by (simp add: conj_commute)
  qed
  show ?thesis unfolding Let_def made using dist keys aggs by blast
qed

theorem over_window_batching_witness:
  "get_table (Suc 0) example_env new_session (Descriptor (source profile_view))
     = Some (Inr purchases_table, purchases_session)
   \<and> get_dependent_features profile_view = Inr [total_spend, purchase_count, age, city]
   \<and> get_join_tables (get_table (Suc 0) example_env) example_env
         (join_table_names (features profile_view)) [] [] purchases_session
       = Some (Inr ([(''users'', users_table)], [(''users'', users)]), users_session)
   \<and> get_table_from_derived_feature_view (get_table (Suc 0) example_env) example_env
         new_session profile_view = Some (Inr profile_table, profile_session)
   \<and> over_window_calls (calls_since users_session profile_session)
       = [(profile_window, [from_feature total_spend, from_feature purchase_count])]
   \<and> (let pending =
               filter (\<lambda>f. is_over_window (transform f))
                 (pending_features (field_names purchases_table)
                    [total_spend, purchase_count, age, city]);
           made = over_window_calls (calls_since users_session profile_session)
       in distinct (map fst made)
        \<and> fst ` set made = (\<lambda>f. from_over_window_transform (transform f)) ` set pending
        \<and> (\<forall>(d, aggs)\<in>set made.
              aggs = map from_feature
                       (filter (\<lambda>f. from_over_window_transform (transform f) = d)
                          pending)))"
proof -
  have made: "over_window_calls (calls_since users_session profile_session)
       = [(profile_window, [from_feature total_spend, from_feature purchase_count])]"
    by (simp add: calls_since_def users_session_def profile_session_def
        over_window_calls_def)
  show ?thesis
    by (intro conjI profile_view_source profile_view_dependent_features
        profile_view_join_tables profile_view_built made
        over_window_batching [OF profile_view_source profile_view_dependent_features
          profile_view_join_tables profile_view_built])
qed

section \<open>The bounds of a time range\<close>

text \<open>
  The text \<open>strftime\<close> writes is read back by \<open>to_timestamp\<close> as the same date and
  time of day with no fraction of a second.
\<close>

lemma digit_value_digit: "digit_value (digit n) = Some (n mod 10)"
proof -
  have "n mod 10 < 10" by simp
  then have "(48 + n mod 10) mod 256 = 48 + n mod 10" by simp
  then show ?thesis by (simp add: digit_value_def digit_def Let_def)
qed

lemma two_digits:
  assumes "(n::nat) < 100"
  shows "10 * (n div 10 mod 10) + n mod 10 = n"
proof -
  have "n div 10 < 10" using assms by (simp add: less_mult_imp_div_less)
  then have "n div 10 mod 10 = n div 10" by simp
  then show ?thesis by (simp only: mult_div_mod_eq)
qed

lemma four_digits:
  assumes "(n::nat) < 10000"
  shows "10 * (10 * (10 * (n div 1000 mod 10) + n div 100 mod 10) + n div 10 mod 10)
           + n mod 10 = n"
proof -
  have "n div 10 div 10 = n div (10 * 10)" by (rule div_mult2_eq [symmetric])
  then have d1: "n div 10 div 10 = n div 100" by simp
  have "n div 100 div 10 = n div (100 * 10)" by (rule div_mult2_eq [symmetric])
  then have d2: "n div 100 div 10 = n div 1000" by simp
  have "n div 1000 < 10" using assms by (simp add: less_mult_imp_div_less)
  then have e4: "n div 1000 mod 10 = n div 1000" by simp
  have e3: "10 * (n div 1000) + n div 100 mod 10 = n div 100"
    using mult_div_mod_eq [of 10 "n div 100"] by (simp only: d2)
  have e2: "10 * (n div 100) + n div 10 mod 10 = n div 10"
    using mult_div_mod_eq [of 10 "n div 10"] by (simp only: d1)
  have e1: "10 * (n div 10) + n mod 10 = n"
    by (rule mult_div_mod_eq)
  show ?thesis by (simp only: e4 e3 e2 e1)
qed

lemma number_digits2:
  "number [digit a, digit b] = Some (10 * (a mod 10) + b mod 10)"
  by (simp add: number_def digit_value_digit)

lemma number_digits4:
  "number [digit a, digit b, digit c, digit d]
     = Some (10 * (10 * (10 * (a mod 10) + b mod 10) + c mod 10) + d mod 10)"
  by (simp add: number_def digit_value_digit)

lemma number_pad2: "n < 100 \<Longrightarrow> number (pad2 n) = Some n"
  by (simp only: pad2_def number_digits2 two_digits)

lemma number_pad4: "n < 10000 \<Longrightarrow> number (pad4 n) = Some n"
  by (simp only: pad4_def number_digits4 four_digits)


lemma strftime_ignores_microsecond: "strftime (d\<lparr>microsecond := m\<rparr>) = strftime d"
  by (simp add: strftime_def)

lemma to_timestamp_strftime:
  assumes "valid_datetime d"
  shows "to_timestamp (strftime d) = Some (d\<lparr>microsecond := 0\<rparr>)"
proof -
  from assms have b: "year d < 10000" "month d < 100" "day d < 100" "hour d < 100"
    "minute d < 100" "second d < 100"
    by (simp_all add: valid_datetime_def)
  have s: "strftime d =
      pad4 (year d) @ CHR ''-'' # pad2 (month d) @ CHR ''-'' # pad2 (day d) @ CHR '' '' #
      pad2 (hour d) @ CHR '':'' # pad2 (minute d) @ CHR '':'' # pad2 (second d)"
    by (simp add: strftime_def)
  have l4: "length (pad4 n) = 4" and l2: "length (pad2 n) = 2" for n
    by (simp_all add: pad4_def pad2_def)
  obtain y1 y2 y3 y4 where y: "pad4 (year d) = [y1, y2, y3, y4]" by (simp add: pad4_def)
  obtain m1 m2 where m: "pad2 (month d) = [m1, m2]" by (simp add: pad2_def)
  obtain d1 d2 where dd: "pad2 (day d) = [d1, d2]" by (simp add: pad2_def)
  obtain h1 h2 where h: "pad2 (hour d) = [h1, h2]" by (simp add: pad2_def)
  obtain n1 n2 where n: "pad2 (minute d) = [n1, n2]" by (simp add: pad2_def)
  obtain s1 s2 where ss: "pad2 (second d) = [s1, s2]" by (simp add: pad2_def)
  have nums: "number [y1, y2, y3, y4] = Some (year d)" "number [m1, m2] = Some (month d)"
    "number [d1, d2] = Some (day d)" "number [h1, h2] = Some (hour d)"
    "number [n1, n2] = Some (minute d)" "number [s1, s2] = Some (second d)"
    using number_pad4 [OF b(1)] number_pad2 [OF b(2)] number_pad2 [OF b(3)]
      number_pad2 [OF b(4)] number_pad2 [OF b(5)] number_pad2 [OF b(6)]
    by (simp_all only: y m dd h n ss)
  have "to_timestamp [y1, y2, y3, y4, CHR ''-'', m1, m2, CHR ''-'', d1, d2, CHR '' '',
           h1, h2, CHR '':'', n1, n2, CHR '':'', s1, s2]
        = Some \<lparr>year = year d, month = month d, day = day d, hour = hour d,
                minute = minute d, second = second d, microsecond = 0\<rparr>"
    by (simp add: to_timestamp_def nums)
  then show ?thesis unfolding s y m dd h n ss by simp
qed

lemma holds_ge_bound:
  assumes "to_timestamp lit = Some b"
  shows "holds (Ge (Col EVENT_TIME_ATTRIBUTE_NAME) (ToTimestamp (Lit lit))) r \<longleftrightarrow>
           (\<exists>x. event_time r = Some x \<and> datetime_key b \<le> datetime_key x)"
  using assms by (auto simp: event_time_def split: option.splits cell.splits)

lemma holds_lt_bound:
  assumes "to_timestamp lit = Some b"
  shows "holds (Lt (Col EVENT_TIME_ATTRIBUTE_NAME) (ToTimestamp (Lit lit))) r \<longleftrightarrow>
           (\<exists>x. event_time r = Some x \<and> datetime_key x < datetime_key b)"
  using assms by (auto simp: event_time_def split: option.splits cell.splits)

text \<open>
  What \<^verbatim>\<open>_range_table_by_time\<close> keeps: the rows whose event time is not before the start
  bound and is before the end bound, each bound taken without its fraction of a second;
  a bound that is not given filters nothing.
\<close>

lemma rows_of_range_table_by_time:
  assumes "\<forall>s. start_datetime = Some s \<longrightarrow> valid_datetime s"
    and "\<forall>en. end_datetime = Some en \<longrightarrow> valid_datetime en"
  shows "rows_of engine (range_table_by_time t start_datetime end_datetime) =
           filter
             (\<lambda>r. (\<forall>s. start_datetime = Some s \<longrightarrow>
                        (\<exists>x. event_time r = Some x
                             \<and> datetime_key (s\<lparr>microsecond := 0\<rparr>) \<le> datetime_key x))
                 \<and> (\<forall>en. end_datetime = Some en \<longrightarrow>
                        (\<exists>x. event_time r = Some x
                             \<and> datetime_key x < datetime_key (en\<lparr>microsecond := 0\<rparr>))))
             (rows_of engine t)"
proof -
  have ge: "holds (Ge (Col EVENT_TIME_ATTRIBUTE_NAME) (ToTimestamp (Lit (strftime s))))
            = (\<lambda>r. \<exists>x. event_time r = Some x
                     \<and> datetime_key (s\<lparr>microsecond := 0\<rparr>) \<le> datetime_key x)"
    if "valid_datetime s" for s
    by (rule ext) (rule holds_ge_bound [OF to_timestamp_strftime [OF that]])
  have lt: "holds (Lt (Col EVENT_TIME_ATTRIBUTE_NAME) (ToTimestamp (Lit (strftime en))))
            = (\<lambda>r. \<exists>x. event_time r = Some x
                     \<and> datetime_key x < datetime_key (en\<lparr>microsecond := 0\<rparr>))"
    if "valid_datetime en" for en
    by (rule ext) (rule holds_lt_bound [OF to_timestamp_strftime [OF that]])
  show ?thesis
  proof (cases start_datetime)
    case None
    show ?thesis
    proof (cases end_datetime)
      case n: None
      show ?thesis using None n by (simp add: range_table_by_time_def)
    next
      case (Some en)
      then have "valid_datetime en" using assms(2) by simp
      then show ?thesis using None Some by (simp add: range_table_by_time_def lt)
    qed
  next
    case (Some s)
    then have vs: "valid_datetime s" using assms(1) by simp
    show ?thesis
    proof (cases end_datetime)
      case None
      then show ?thesis using Some vs by (simp add: range_table_by_time_def ge)
    next
      case en: (Some en)
      then have "valid_datetime en" using assms(2) by simp
      then show ?thesis using Some en vs
        by (simp add: range_table_by_time_def ge lt conj_commute)
    qed
  qed
qed

lemma range_table_by_time_ignores_microsecond:
  "range_table_by_time t
     (map_option (\<lambda>s. s\<lparr>microsecond := m\<rparr>) start_datetime)
     (map_option (\<lambda>en. en\<lparr>microsecond := m'\<rparr>) end_datetime)
   = range_table_by_time t start_datetime end_datetime"
  by (cases start_datetime; cases end_datetime)
     (simp_all add: range_table_by_time_def strftime_ignores_microsecond)

lemma valid_midnight_plus: "s < 60 \<Longrightarrow> us < 1000000 \<Longrightarrow> valid_datetime (midnight_plus s us)"
  by (simp add: valid_datetime_def midnight_plus_def)

lemma example_rows:
  "rows_of example_engine purchases_table = [early_row, late_row]"
  "event_time early_row = Some (midnight_plus 0 200000)"
  "event_time late_row = Some (midnight_plus 1 200000)"
  by (simp_all add: purchases_table_def example_engine_def event_time_def early_row_def
      late_row_def EVENT_TIME_ATTRIBUTE_NAME_def)

section \<open>A time range with a fraction of a second\<close>

text \<open>
  \<^verbatim>\<open>build\<close> on the source \<open>purchases\<close> with a start bound at 0.5 s after midnight:
  the table returned is the source filtered by \<^verbatim>\<open>_range_table_by_time\<close> with that
  bound, the event-time column dropped.
\<close>

lemma build_with_sub_second_start:
  "build (Suc 0) example_env new_session purchases None (Some (midnight_plus 0 500000)) None
     = Some (Inr (DropColumns EVENT_TIME_ATTRIBUTE_NAME
                    (range_table_by_time purchases_table
                       (Some (midnight_plus 0 500000)) None)),
             purchases_session)"
  by (simp add: build_def example_defs drop_event_time_def range_table_by_time_def)

text \<open>
  C7, where the code departs from it. The docstring of \<^verbatim>\<open>build\<close> promises the rows with
  \<^verbatim>\<open>timestamp >= start_datetime\<close> and \<^verbatim>\<open>timestamp < end_datetime\<close>. With the start
  bound at 0.5 s after midnight the row at 0.2 s is kept, though its event time is before
  the bound; with the end bound at 1.5 s the row at 1.2 s is removed, though its event
  time is before the bound.
\<close>

theorem sub_second_bounds_evaluated:
  "rows_of example_engine
     (range_table_by_time purchases_table (Some (midnight_plus 0 500000)) None)
     = [early_row, late_row]
   \<and> event_time early_row = Some (midnight_plus 0 200000)
   \<and> datetime_key (midnight_plus 0 200000) < datetime_key (midnight_plus 0 500000)
   \<and> rows_of example_engine
       (range_table_by_time purchases_table None (Some (midnight_plus 1 500000)))
       = [early_row]
   \<and> event_time late_row = Some (midnight_plus 1 200000)
   \<and> datetime_key (midnight_plus 1 200000) < datetime_key (midnight_plus 1 500000)"
proof -
  have va: "\<forall>s. Some (midnight_plus 0 500000) = Some s \<longrightarrow> valid_datetime s"
    and vb: "\<forall>s. Some (midnight_plus 1 500000) = Some s \<longrightarrow> valid_datetime s"
    and vn: "\<forall>s. (None :: datetime option) = Some s \<longrightarrow> valid_datetime s"
    by (simp_all add: valid_midnight_plus)
  have a: "rows_of example_engine
     (range_table_by_time purchases_table (Some (midnight_plus 0 500000)) None)
     = [early_row, late_row]"
    using rows_of_range_table_by_time [OF va vn, of example_engine purchases_table]
    by (simp add: example_rows datetime_key_def midnight_plus_def)
  have b: "rows_of example_engine
       (range_table_by_time purchases_table None (Some (midnight_plus 1 500000)))
       = [early_row]"
    using rows_of_range_table_by_time [OF vn vb, of example_engine purchases_table]
    by (simp add: example_rows datetime_key_def midnight_plus_def)
  have c: "datetime_key (midnight_plus 0 200000) < datetime_key (midnight_plus 0 500000)"
    "datetime_key (midnight_plus 1 200000) < datetime_key (midnight_plus 1 500000)"
    by (simp_all add: datetime_key_def midnight_plus_def)
  show ?thesis using a b c example_rows(2,3) by blast
qed

section \<open>The event-time column: kept inside, dropped outside\<close>

lemma event_time_in_output_fields:
  "EVENT_TIME_ATTRIBUTE_NAME \<in> set (get_output_fields e fv source_fields)"
  by (simp add: get_output_fields_def Let_def)

lemma field_names_drop_event_time:
  "EVENT_TIME_ATTRIBUTE_NAME \<notin> set (field_names (drop_event_time t))"
  by (simp add: drop_event_time_def)

lemma bnd_Inr:
  "bnd m f = Some (Inr t, st')
   \<Longrightarrow> \<exists>x st1. m = Some (Inr x, st1) \<and> f x st1 = Some (Inr t, st')"
  by (auto simp: bnd_Some)

lemma build_returns_dropped:
  assumes "build fuel e st d ks s en = Some (Inr t, st')"
  shows "\<exists>t0. t = drop_event_time t0"
  using assms
  apply (simp add: build_def split: if_splits)
   apply (drule bnd_Inr, clarify, drule bnd_Inr, auto split: if_splits)+
  done

text \<open>
  C8. \<^verbatim>\<open>_get_output_fields\<close> always lists the event-time column: it is the view's list
  of output fields, with the column appended when the list lacks it. The table compiled
  for a derived or a sliding view is a selection of exactly these fields, so it has the
  event-time column. The table returned by \<^verbatim>\<open>build\<close> does not have it.
\<close>

theorem event_time_inside_not_outside:
  "EVENT_TIME_ATTRIBUTE_NAME \<in> set (get_output_fields e feature_view source_fields)
   \<and> get_output_fields e feature_view source_fields =
       (if EVENT_TIME_ATTRIBUTE_NAME \<in> set (view_output_fields e feature_view source_fields)
        then view_output_fields e feature_view source_fields
        else view_output_fields e feature_view source_fields @ [EVENT_TIME_ATTRIBUTE_NAME])
   \<and> (\<forall>t st'.
         get_table_from_derived_feature_view rec e st feature_view = Some (Inr t, st')
         \<or> get_table_from_sliding_feature_view rec e st feature_view = Some (Inr t, st')
         \<longrightarrow> (\<exists>source_table tmp_table.
                t = Select (map Col (get_output_fields e feature_view
                                       (field_names source_table))) tmp_table)
             \<and> EVENT_TIME_ATTRIBUTE_NAME \<in> set (field_names t))
   \<and> (\<forall>t st'.
         build fuel e st feature_view keys0 start_datetime end_datetime = Some (Inr t, st')
         \<longrightarrow> EVENT_TIME_ATTRIBUTE_NAME \<notin> set (field_names t))"
proof -
  have sel: "\<exists>source_table tmp_table.
                t = Select (map Col (get_output_fields e feature_view
                                       (field_names source_table))) tmp_table"
    if "get_table_from_derived_feature_view rec e st feature_view = Some (Inr t, st')
        \<or> get_table_from_sliding_feature_view rec e st feature_view = Some (Inr t, st')"
    for t st'
    using that
  proof
    assume "get_table_from_derived_feature_view rec e st feature_view = Some (Inr t, st')"
    then show ?thesis
    proof (cases rule: derived_view_cases)
      case (assembled src st1 deps tbn dbn st2)
      from assembled(4) show ?thesis
        by (rule assemble_derived_table_calls) blast
    qed simp_all
  next
    assume "get_table_from_sliding_feature_view rec e st feature_view = Some (Inr t, st')"
    then show ?thesis
    proof (cases rule: sliding_view_cases)
      case (assembled src st1 deps)
      then show ?thesis
        by (auto simp: assemble_sliding_table_def Let_def split: sum.splits prod.splits)
    qed simp_all
  qed
  have inside: "EVENT_TIME_ATTRIBUTE_NAME \<in> set (field_names t)"
    if "\<exists>source_table tmp_table.
          t = Select (map Col (get_output_fields e feature_view
                                 (field_names source_table))) tmp_table" for t
    using that event_time_in_output_fields by (auto simp: comp_def)
  have outside: "EVENT_TIME_ATTRIBUTE_NAME \<notin> set (field_names t)"
    if "build fuel e st feature_view keys0 start_datetime end_datetime = Some (Inr t, st')"
    for t st'
    using build_returns_dropped [OF that] field_names_drop_event_time by auto
  show ?thesis
    using sel inside outside
    by (simp add: event_time_in_output_fields) (simp add: get_output_fields_def Let_def)
qed

theorem event_time_inside_not_outside_witness:
  "get_table_from_derived_feature_view (get_table (Suc 0) example_env) example_env
     new_session profile_view = Some (Inr profile_table, profile_session)
   \<and> EVENT_TIME_ATTRIBUTE_NAME \<in> set (field_names profile_table)
   \<and> build (Suc (Suc 0)) example_env new_session profile_view None None None
       = Some (Inr (DropColumns EVENT_TIME_ATTRIBUTE_NAME profile_table),
               profile_built_session)
   \<and> EVENT_TIME_ATTRIBUTE_NAME
       \<notin> set (field_names (DropColumns EVENT_TIME_ATTRIBUTE_NAME profile_table))"
proof -
  note t = event_time_inside_not_outside
             [of example_env profile_view "[]" "get_table (Suc 0) example_env" new_session
                "Suc (Suc 0)" None None None]
  have b: "build (Suc (Suc 0)) example_env new_session profile_view None None None
       = Some (Inr (DropColumns EVENT_TIME_ATTRIBUTE_NAME profile_table),
               profile_built_session)"
    using profile_view_built
    by (simp add: build_def bnd_def profile_view_def new_session_def drop_event_time_def
        profile_table_def profile_built_session_def profile_session_def)
  from t profile_view_built have "EVENT_TIME_ATTRIBUTE_NAME \<in> set (field_names profile_table)"
    by blast
  moreover from t b have "EVENT_TIME_ATTRIBUTE_NAME
       \<notin> set (field_names (DropColumns EVENT_TIME_ATTRIBUTE_NAME profile_table))"
    by blast
  ultimately show ?thesis using profile_view_built b by blast
qed

section \<open>An unresolved view is refused before anything is built\<close>

text \<open>
  C9. \<^verbatim>\<open>build\<close> given a feature view that is not resolved raises the exception of its
  first statement, whatever the other arguments, the fuel and the session are: no table is
  returned, and the session state (the cache and the helper calls made) is the one the
  call started from.
\<close>

theorem build_unresolved_view_raises:
  assumes "is_feature_view feature_view" and "unresolved feature_view"
  shows "build fuel e st feature_view keys0 start_datetime end_datetime =
           Some (Inl UnresolvedFeatureView, st)"
  using assms by (simp add: build_def)

theorem build_unresolved_view_raises_witness:
  "is_feature_view unresolved_view \<and> unresolved unresolved_view
   \<and> build 0 example_env new_session unresolved_view None None None =
       Some (Inl UnresolvedFeatureView, new_session)"
  using build_unresolved_view_raises
          [of unresolved_view 0 example_env new_session None None None]
  by (simp add: unresolved_view_def)

section \<open>The bounds are compared to the second\<close>

text \<open>
  C10. For bounds that are dates of Python (with a year of four digits), the rows
  \<^verbatim>\<open>_range_table_by_time\<close> keeps are those whose event time is at or after the start
  bound with its microseconds set to zero, and before the end bound with its microseconds
  set to zero: the bound compared is the text of \<^verbatim>\<open>strftime("%Y-%m-%d %H:%M:%S")\<close>
  read back as a timestamp. The microseconds of a bound change neither the table
  \<^verbatim>\<open>_range_table_by_time\<close> builds nor anything \<^verbatim>\<open>build\<close> returns.
\<close>

theorem time_bounds_truncated_to_seconds:
  assumes "\<forall>s. start_datetime = Some s \<longrightarrow> valid_datetime s"
    and "\<forall>en. end_datetime = Some en \<longrightarrow> valid_datetime en"
  shows "rows_of engine (range_table_by_time t start_datetime end_datetime) =
           filter
             (\<lambda>r. (\<forall>s. start_datetime = Some s \<longrightarrow>
                        (\<exists>x. event_time r = Some x
                             \<and> datetime_key (s\<lparr>microsecond := 0\<rparr>) \<le> datetime_key x))
                 \<and> (\<forall>en. end_datetime = Some en \<longrightarrow>
                        (\<exists>x. event_time r = Some x
                             \<and> datetime_key x < datetime_key (en\<lparr>microsecond := 0\<rparr>))))
             (rows_of engine t)
       \<and> range_table_by_time t
           (map_option (\<lambda>s. s\<lparr>microsecond := m\<rparr>) start_datetime)
           (map_option (\<lambda>en. en\<lparr>microsecond := m'\<rparr>) end_datetime)
         = range_table_by_time t start_datetime end_datetime
       \<and> build fuel e st features0 keys0
           (map_option (\<lambda>s. s\<lparr>microsecond := m\<rparr>) start_datetime)
           (map_option (\<lambda>en. en\<lparr>microsecond := m'\<rparr>) end_datetime)
         = build fuel e st features0 keys0 start_datetime end_datetime"
proof -
  note same = range_table_by_time_ignores_microsecond
  have "build fuel e st features0 keys0
           (map_option (\<lambda>s. s\<lparr>microsecond := m\<rparr>) start_datetime)
           (map_option (\<lambda>en. en\<lparr>microsecond := m'\<rparr>) end_datetime)
         = build fuel e st features0 keys0 start_datetime end_datetime"
    unfolding build_def same by simp
  with rows_of_range_table_by_time [OF assms] same show ?thesis by blast
qed

theorem time_bounds_truncated_to_seconds_witness:
  "valid_datetime (midnight_plus 0 500000) \<and> valid_datetime (midnight_plus 1 500000)
   \<and> rows_of example_engine
        (range_table_by_time purchases_table (Some (midnight_plus 0 500000))
           (Some (midnight_plus 1 500000)))
       = [early_row]
   \<and> range_table_by_time purchases_table (Some (midnight_plus 0 0)) (Some (midnight_plus 1 0))
       = range_table_by_time purchases_table (Some (midnight_plus 0 500000))
           (Some (midnight_plus 1 500000))"
proof -
  have v: "valid_datetime (midnight_plus 0 500000)" "valid_datetime (midnight_plus 1 500000)"
    by (simp_all add: valid_midnight_plus)
  note t = time_bounds_truncated_to_seconds
             [of "Some (midnight_plus 0 500000)" "Some (midnight_plus 1 500000)"
                example_engine purchases_table 0 0]
  have "rows_of example_engine
        (range_table_by_time purchases_table (Some (midnight_plus 0 500000))
           (Some (midnight_plus 1 500000)))
       = [early_row]"
    using t v by (simp add: example_rows datetime_key_def midnight_plus_def)
  moreover have "range_table_by_time purchases_table (Some (midnight_plus 0 0))
        (Some (midnight_plus 1 0))
       = range_table_by_time purchases_table (Some (midnight_plus 0 500000))
           (Some (midnight_plus 1 500000))"
    using t v by (simp add: midnight_plus_def)
  ultimately show ?thesis using v by blast
qed

end
